theory Spec2Isabelle
  imports Main "HOL-Library.Word"
begin

unbundle bit_operations_syntax

section \<open>The Key Store driver of m55m1x/StdDriver/src/ks.c\<close>

text \<open>
  The driver talks to the Key Store controller through the memory-mapped registers
  \<^verbatim>\<open>KS->CTL\<close>, \<^verbatim>\<open>KS->STS\<close>, \<^verbatim>\<open>KS->METADATA\<close> and the eight-word window \<^verbatim>\<open>KS->KEY[0..7]\<close>.
  \<^verbatim>\<open>KS_Open\<close>, the nine functions that issue a command and \<^verbatim>\<open>KS_GetKeyWordCnt\<close> each become
  a function on an explicit register state; every \<^verbatim>\<open>return\<close> of the C code is a branch of
  the model. \<^verbatim>\<open>KS_GetRemainSize\<close> and \<^verbatim>\<open>KS_GetRemainKeyCount\<close>, which read a counter register
  and nothing else, are left out.
\<close>

type_synonym u32 = "32 word"
type_synonym i32 = "32 word"

subsection \<open>Register layout\<close>

text \<open>
  ks.c uses the masks, positions, opcodes and helper macros of the register header
  (\<^verbatim>\<open>KS_STS_BUSY_Msk\<close>, \<^verbatim>\<open>KS_OP_READ\<close>, \<^verbatim>\<open>KS_TOMETAKEY\<close>, \<^verbatim>\<open>KS_TIMEOUT\<close>, ...) only by name.
  The model takes them as one parameter \<open>c\<close>, a record with a field for every macro the
  driver mentions, so that each result below holds for every register layout; a
  property that needs a fact about the layout states it as a hypothesis.
\<close>

datatype KS_MEM_Type = KS_SRAM | KS_FLASH | KS_OTP

record ks_consts =
  KS_TIMEOUT :: u32
  KS_STS_IF_Msk :: u32
  KS_STS_EIF_Msk :: u32
  KS_STS_BUSY_Msk :: u32
  KS_STS_INITDONE_Msk :: u32
  KS_STS_RAMINV_Msk :: u32
  KS_CTL_START_Msk :: u32
  KS_CTL_CONT_Msk :: u32
  KS_CTL_INIT_Msk :: u32
  KS_CTL_SILENT_Msk :: u32
  KS_CTL_SCMB_Msk :: u32
  KS_OP_READ :: u32
  KS_OP_WRITE :: u32
  KS_OP_ERASE :: u32
  KS_OP_ERASE_ALL :: u32
  KS_OP_REVOKE :: u32
  KS_OP_REMAN :: u32
  KS_OP_LOCK :: u32
  KS_METADATA_DST_Pos :: nat
  KS_METADATA_SIZE_Pos :: nat
  KS_METADATA_SIZE_Msk :: u32
  KS_META_256 :: u32
  KS_TOMETAKEY :: "i32 \<Rightarrow> u32"
  KS_TOKEYIDX :: "u32 \<Rightarrow> u32"
  KS_MEM_code :: "KS_MEM_Type \<Rightarrow> u32"

text \<open>The return codes \<^verbatim>\<open>KS_ERR_*\<close>; \<open>KS_OK\<close> and the non-negative results are \<open>Inr\<close>.
  \<open>KS_UNDEFINED\<close> is not a return code: it marks a run in which the C program reads or
  writes outside an array, where C gives it no meaning.\<close>

datatype ks_err = KS_ERR_FAIL | KS_ERR_TIMEOUT | KS_ERR_BUSY | KS_ERR_PARAMETER | KS_UNDEFINED

subsection \<open>Register state\<close>

text \<open>
  \<open>CTL\<close> and \<open>METADATA\<close> hold what the driver wrote last; a read of \<^verbatim>\<open>KS->CTL\<close> returns
  \<open>CTL\<close>. \<open>KEY\<close> is the window as the driver wrote it. \<open>ctl_log\<close> and \<open>sts_log\<close> keep every
  value written to \<^verbatim>\<open>KS->CTL\<close> and \<^verbatim>\<open>KS->STS\<close>, oldest first: a write to \<^verbatim>\<open>KS->CTL\<close> is
  one command strobe.

  What the controller answers is not under the driver's control. The status register is
  volatile: the \<open>n\<close>-th read of \<^verbatim>\<open>KS->STS\<close> returns \<open>hw_sts n\<close>, for an arbitrary function
  \<open>hw_sts\<close>, and \<open>sts_cnt\<close> counts the reads made so far. After \<open>k\<close> command strobes the
  controller shows \<open>hw_key k i\<close> in \<^verbatim>\<open>KS->KEY[i]\<close>, and a read of \<^verbatim>\<open>KS->METADATA\<close> after \<open>k\<close>
  strobes returns \<open>hw_meta k\<close>.
\<close>

record ks_state =
  CTL :: u32
  METADATA :: u32
  KEY :: "u32 list"
  ctl_log :: "u32 list"
  sts_log :: "u32 list"
  sts_cnt :: nat
  hw_sts :: "nat \<Rightarrow> u32"
  hw_key :: "nat \<Rightarrow> nat \<Rightarrow> u32"
  hw_meta :: "nat \<Rightarrow> u32"

definition rd_STS :: "ks_state \<Rightarrow> u32" where
  "rd_STS s = hw_sts s (sts_cnt s)"

definition tick :: "ks_state \<Rightarrow> ks_state" where
  "tick s = s\<lparr>sts_cnt := Suc (sts_cnt s)\<rparr>"

definition wr_CTL :: "u32 \<Rightarrow> ks_state \<Rightarrow> ks_state" where
  "wr_CTL v s = s\<lparr>CTL := v, ctl_log := ctl_log s @ [v]\<rparr>"

definition wr_STS :: "u32 \<Rightarrow> ks_state \<Rightarrow> ks_state" where
  "wr_STS v s = s\<lparr>sts_log := sts_log s @ [v]\<rparr>"

definition wr_METADATA :: "u32 \<Rightarrow> ks_state \<Rightarrow> ks_state" where
  "wr_METADATA v s = s\<lparr>METADATA := v\<rparr>"

definition wr_KEY :: "nat \<Rightarrow> u32 \<Rightarrow> ks_state \<Rightarrow> ks_state" where
  "wr_KEY i v s = s\<lparr>KEY := (KEY s)[i := v]\<rparr>"

definition rd_KEY :: "ks_state \<Rightarrow> nat \<Rightarrow> u32" where
  "rd_KEY s i = hw_key s (length (ctl_log s)) i"

definition rd_METADATA :: "ks_state \<Rightarrow> u32" where
  "rd_METADATA s = hw_meta s (length (ctl_log s))"

subsection \<open>The countdown loop\<close>

text \<open>
  Every wait of ks.c has the shape
  \<^verbatim>\<open>u32TimeOutCount = KS_TIMEOUT; while (cond(KS->STS)) { if (--u32TimeOutCount == 0) return KS_ERR_TIMEOUT; }\<close>.
  \<open>wait_while cond t s\<close> runs the loop from the counter value \<open>t\<close>: it returns \<open>False\<close> when the
  function returns \<^verbatim>\<open>KS_ERR_TIMEOUT\<close> from inside the loop and \<open>True\<close> when the loop is left
  normally. The counter is an unsigned 32-bit value, so \<open>t - 1\<close> wraps at \<open>0\<close>.
\<close>

function wait_while :: "(u32 \<Rightarrow> bool) \<Rightarrow> u32 \<Rightarrow> ks_state \<Rightarrow> bool \<times> ks_state" where
  "wait_while cond t s =
     (if cond (rd_STS s) then
        (if t - 1 = 0 then (False, tick s) else wait_while cond (t - 1) (tick s))
      else (True, tick s))"
  by pat_completeness auto
termination
proof (relation "measure (\<lambda>(cond, t, s). unat (t - 1))")
  show "wf (measure (\<lambda>(cond, t, s). unat (t - 1)))" by simp
next
  fix cond :: "u32 \<Rightarrow> bool" and t :: u32 and s :: ks_state
  assume nz: "t - 1 \<noteq> 0"
  have "unat (t - 1 - 1) = unat (t - 1) - 1"
    by (rule unat_minus_one [OF nz])
  moreover have "0 < unat (t - 1)"
    using nz unat_gt_0 [of "t - 1"] by blast
  ultimately have "unat (t - 1 - 1) < unat (t - 1)"
    by arith
  then show "((cond, t - 1, tick s), (cond, t, s)) \<in> measure (\<lambda>(cond, t, s). unat (t - 1))"
    by simp
qed

declare wait_while.simps [simp del]

definition is_busy :: "ks_consts \<Rightarrow> u32 \<Rightarrow> bool" where
  "is_busy c sts \<longleftrightarrow> sts AND KS_STS_BUSY_Msk c \<noteq> 0"

definition wait_busy :: "ks_consts \<Rightarrow> ks_state \<Rightarrow> bool \<times> ks_state" where
  "wait_busy c s = wait_while (is_busy c) (KS_TIMEOUT c) s"

subsection \<open>KS_GetKeyWordCnt\<close>

definition au8CntTbl :: "nat list" where
  "au8CntTbl = [4, 6, 6, 7, 8, 8, 8, 9, 12, 13, 16, 17, 18, 0, 0, 0, 32, 48, 64, 96, 128]"

text \<open>The index \<^verbatim>\<open>(u32Meta & KS_METADATA_SIZE_Msk) >> KS_METADATA_SIZE_Pos\<close>.\<close>

definition size_idx :: "ks_consts \<Rightarrow> u32 \<Rightarrow> nat" where
  "size_idx c u32Meta = unat (drop_bit (KS_METADATA_SIZE_Pos c) (u32Meta AND KS_METADATA_SIZE_Msk c))"

text \<open>The table has 21 entries and the C code indexes it unchecked; \<open>None\<close> is the read
  outside the table.\<close>

definition KS_GetKeyWordCnt :: "ks_consts \<Rightarrow> u32 \<Rightarrow> u32 option" where
  "KS_GetKeyWordCnt c u32Meta =
     (if size_idx c u32Meta < length au8CntTbl
      then Some (of_nat (au8CntTbl ! size_idx c u32Meta))
      else None)"

subsection \<open>KS_Open\<close>

text \<open>The last wait of \<^verbatim>\<open>KS_Open\<close> (``Waiting busy to make sure KS is ready''), reached on
  both paths.\<close>

definition KS_Open_ready :: "ks_consts \<Rightarrow> ks_state \<Rightarrow> (ks_err + unit) \<times> ks_state" where
  "KS_Open_ready c s =
     (let (ok, s1) = wait_busy c s in
      if \<not> ok then (Inl KS_ERR_TIMEOUT, s1) else (Inr (), s1))"

definition KS_Open :: "ks_consts \<Rightarrow> ks_state \<Rightarrow> (ks_err + unit) \<times> ks_state" where
  "KS_Open c s =
     (if rd_STS s AND KS_STS_INITDONE_Msk c = 0 then
        (let (ok, s1) = wait_busy c (tick s) in
         if \<not> ok then (Inl KS_ERR_TIMEOUT, s1)
         else
           let s2 = wr_CTL (KS_CTL_INIT_Msk c OR KS_CTL_START_Msk c) s1;
               (ok', s3) = wait_while (\<lambda>sts. sts AND KS_STS_INITDONE_Msk c = 0) (KS_TIMEOUT c) s2
           in if \<not> ok' then (Inl KS_ERR_TIMEOUT, s3) else KS_Open_ready c s3)
      else KS_Open_ready c (tick s))"

subsection \<open>KS_Read\<close>

text \<open>
  \<^verbatim>\<open>for (i = 0; i < cnt; i++) au32Key[offset + i] = KS->KEY[i];\<close> with \<open>n\<close> iterations left.
  The caller's buffer is a list; an index outside it is the undefined behaviour \<open>None\<close>.
\<close>

fun copy_from_KEY :: "ks_state \<Rightarrow> int \<Rightarrow> nat \<Rightarrow> nat \<Rightarrow> u32 list \<Rightarrow> u32 list option" where
  "copy_from_KEY s off i 0 buf = Some buf"
| "copy_from_KEY s off i (Suc n) buf =
     (if 0 \<le> off + int i \<and> off + int i < int (length buf)
      then copy_from_KEY s off (Suc i) n (buf[nat (off + int i) := rd_KEY s i])
      else None)"

text \<open>
  The \<^verbatim>\<open>do { ... } while (i32Cnt > 0)\<close> loop of \<^verbatim>\<open>KS_Read\<close>, entered with the current values of
  \<^verbatim>\<open>u32Cont\<close>, \<^verbatim>\<open>i32Cnt\<close> and \<^verbatim>\<open>offset\<close>. \<^verbatim>\<open>i32Cnt\<close>, \<^verbatim>\<open>cnt\<close> and \<^verbatim>\<open>offset\<close> are \<^verbatim>\<open>int32_t\<close>: their
  comparisons are signed, their arithmetic wraps.
\<close>

function KS_Read_loop ::
  "ks_consts \<Rightarrow> u32 \<Rightarrow> i32 \<Rightarrow> i32 \<Rightarrow> u32 list \<Rightarrow> ks_state \<Rightarrow> (ks_err + unit) \<times> u32 list \<times> ks_state" where
  "KS_Read_loop c u32Cont i32Cnt offset au32Key s =
     (let s1 = wr_STS (KS_STS_EIF_Msk c OR KS_STS_IF_Msk c) s;
          s2 = wr_CTL (u32Cont OR KS_OP_READ c OR KS_CTL_START_Msk c OR
                       (CTL s1 AND (KS_CTL_SILENT_Msk c OR KS_CTL_SCMB_Msk c))) s1;
          r = wait_busy c s2
      in if \<not> fst r then (Inl KS_ERR_TIMEOUT, au32Key, snd r)
         else
           let cnt = (if 8 <s i32Cnt then 8 else i32Cnt) in
           case copy_from_KEY (snd r) (sint offset) 0 (nat (sint cnt)) au32Key of
             None \<Rightarrow> (Inl KS_UNDEFINED, au32Key, snd r)
           | Some buf \<Rightarrow>
               if 0 <s i32Cnt - 8
               then KS_Read_loop c (KS_CTL_CONT_Msk c) (i32Cnt - 8) (offset + 8) buf (snd r)
               else (Inr (), buf, snd r))"
  by pat_completeness auto
termination
proof (relation "measure (\<lambda>(c, u32Cont, i32Cnt, offset, au32Key, s).
                   if 0 <s i32Cnt then nat (sint i32Cnt) else 2 ^ 31)")
  show "wf (measure (\<lambda>(c, u32Cont, i32Cnt, offset, au32Key, s).
                   if 0 <s (i32Cnt :: i32) then nat (sint i32Cnt) else 2 ^ 31))"
    by simp
next
  fix c :: ks_consts and u32Cont :: u32 and i32Cnt offset :: i32
    and au32Key buf :: "u32 list" and s :: ks_state and r :: "bool \<times> ks_state"
  assume pos: "0 <s i32Cnt - 8"
  have lt: "sint (i32Cnt - 8) < 2 ^ 31"
    using sint_lt [of "i32Cnt - 8"] by simp
  have "0 <s i32Cnt \<Longrightarrow> sint (i32Cnt - 8) = sint i32Cnt - 8"
    using sint_lt [of i32Cnt] by (simp add: word_sless_alt sint_word_ariths signed_take_bit_int_eq_self)
  then have "(if 0 <s i32Cnt - 8 then nat (sint (i32Cnt - 8)) else 2 ^ 31)
              < (if 0 <s i32Cnt then nat (sint i32Cnt) else 2 ^ 31)"
    using pos lt by (auto simp add: word_sless_alt)
  then show "((c, KS_CTL_CONT_Msk c, i32Cnt - 8, offset + 8, buf, snd r),
              (c, u32Cont, i32Cnt, offset, au32Key, s))
             \<in> measure (\<lambda>(c, u32Cont, i32Cnt, offset, au32Key, s).
                   if 0 <s i32Cnt then nat (sint i32Cnt) else 2 ^ 31)"
    by simp
qed

declare KS_Read_loop.simps [simp del]

definition KS_Read ::
  "ks_consts \<Rightarrow> KS_MEM_Type \<Rightarrow> i32 \<Rightarrow> u32 list \<Rightarrow> u32 \<Rightarrow> ks_state \<Rightarrow> (ks_err + unit) \<times> u32 list \<times> ks_state" where
  "KS_Read c eMemType i32KeyIdx au32Key u32WordCnt s =
     (if rd_STS s AND KS_STS_BUSY_Msk c \<noteq> 0 then (Inl KS_ERR_BUSY, au32Key, tick s)
      else
        let s1 = wr_METADATA (push_bit (KS_METADATA_DST_Pos c) (KS_MEM_code c eMemType) OR
                              KS_TOMETAKEY c i32KeyIdx) (tick s)
        in case KS_Read_loop c 0 u32WordCnt 0 au32Key s1 of
             (Inl e, buf, s2) \<Rightarrow> (Inl e, buf, s2)
           | (Inr u, buf, s2) \<Rightarrow>
               if rd_STS s2 AND KS_STS_EIF_Msk c \<noteq> 0 then (Inl KS_ERR_FAIL, buf, tick s2)
               else (Inr (), buf, tick s2))"

subsection \<open>KS_Write\<close>

text \<open>\<^verbatim>\<open>for (i = 0; i < cnt; i++) KS->KEY[i] = au32Key[offset + i];\<close> with \<open>n\<close> iterations left.\<close>

fun copy_to_KEY :: "u32 list \<Rightarrow> int \<Rightarrow> nat \<Rightarrow> nat \<Rightarrow> ks_state \<Rightarrow> ks_state option" where
  "copy_to_KEY buf off i 0 s = Some s"
| "copy_to_KEY buf off i (Suc n) s =
     (if 0 \<le> off + int i \<and> off + int i < int (length buf)
      then copy_to_KEY buf off (Suc i) n (wr_KEY i (buf ! nat (off + int i)) s)
      else None)"

function KS_Write_loop ::
  "ks_consts \<Rightarrow> u32 \<Rightarrow> i32 \<Rightarrow> i32 \<Rightarrow> u32 list \<Rightarrow> ks_state \<Rightarrow> (ks_err + unit) \<times> ks_state" where
  "KS_Write_loop c u32Cont i32Cnt offset au32Key s =
     (let cnt = (if 8 <s i32Cnt then 8 else i32Cnt) in
      case copy_to_KEY au32Key (sint offset) 0 (nat (sint cnt)) s of
        None \<Rightarrow> (Inl KS_UNDEFINED, s)
      | Some s1 \<Rightarrow>
          let s2 = wr_STS (KS_STS_EIF_Msk c OR KS_STS_IF_Msk c) s1;
              s3 = wr_CTL (u32Cont OR KS_OP_WRITE c OR KS_CTL_START_Msk c OR
                           (CTL s2 AND (KS_CTL_SILENT_Msk c OR KS_CTL_SCMB_Msk c))) s2;
              r = wait_busy c s3
          in if \<not> fst r then (Inl KS_ERR_TIMEOUT, snd r)
             else if 0 <s i32Cnt - 8
             then KS_Write_loop c (KS_CTL_CONT_Msk c) (i32Cnt - 8) (offset + 8) au32Key (snd r)
             else (Inr (), snd r))"
  by pat_completeness auto
termination
proof (relation "measure (\<lambda>(c, u32Cont, i32Cnt, offset, au32Key, s).
                   if 0 <s i32Cnt then nat (sint i32Cnt) else 2 ^ 31)")
  show "wf (measure (\<lambda>(c, u32Cont, i32Cnt, offset, au32Key, s).
                   if 0 <s (i32Cnt :: i32) then nat (sint i32Cnt) else 2 ^ 31))"
    by simp
next
  fix c :: ks_consts and u32Cont :: u32 and i32Cnt offset :: i32
    and au32Key :: "u32 list" and s :: ks_state and r :: "bool \<times> ks_state"
  assume pos: "0 <s i32Cnt - 8"
  have lt: "sint (i32Cnt - 8) < 2 ^ 31"
    using sint_lt [of "i32Cnt - 8"] by simp
  have "0 <s i32Cnt \<Longrightarrow> sint (i32Cnt - 8) = sint i32Cnt - 8"
    using sint_lt [of i32Cnt] by (simp add: word_sless_alt sint_word_ariths signed_take_bit_int_eq_self)
  then have "(if 0 <s i32Cnt - 8 then nat (sint (i32Cnt - 8)) else 2 ^ 31)
              < (if 0 <s i32Cnt then nat (sint i32Cnt) else 2 ^ 31)"
    using pos lt by (auto simp add: word_sless_alt)
  then show "((c, KS_CTL_CONT_Msk c, i32Cnt - 8, offset + 8, au32Key, snd r),
              (c, u32Cont, i32Cnt, offset, au32Key, s))
             \<in> measure (\<lambda>(c, u32Cont, i32Cnt, offset, au32Key, s).
                   if 0 <s i32Cnt then nat (sint i32Cnt) else 2 ^ 31)"
    by simp
qed

declare KS_Write_loop.simps [simp del]

definition KS_Write ::
  "ks_consts \<Rightarrow> KS_MEM_Type \<Rightarrow> u32 \<Rightarrow> u32 list \<Rightarrow> ks_state \<Rightarrow> (ks_err + u32) \<times> ks_state" where
  "KS_Write c eMemType u32Meta au32Key s =
     (if rd_STS s AND KS_STS_BUSY_Msk c \<noteq> 0 then (Inl KS_ERR_BUSY, tick s)
      else
        let s1 = wr_METADATA (push_bit (KS_METADATA_DST_Pos c) (KS_MEM_code c eMemType) OR u32Meta)
                   (tick s)
        in case KS_GetKeyWordCnt c u32Meta of
             None \<Rightarrow> (Inl KS_UNDEFINED, s1)
           | Some i32Cnt \<Rightarrow>
               if i32Cnt = 0 then (Inl KS_ERR_PARAMETER, s1)
               else if eMemType = KS_OTP \<and> 8 <s i32Cnt then (Inl KS_ERR_PARAMETER, s1)
               else
                 case KS_Write_loop c 0 i32Cnt 0 au32Key s1 of
                   (Inl e, s2) \<Rightarrow> (Inl e, s2)
                 | (Inr u, s2) \<Rightarrow>
                     if rd_STS s2 AND KS_STS_EIF_Msk c \<noteq> 0 then (Inl KS_ERR_FAIL, tick s2)
                     else (Inr (KS_TOKEYIDX c (rd_METADATA (tick s2))), tick s2))"

subsection \<open>The single-command operations\<close>

definition KS_EraseKey :: "ks_consts \<Rightarrow> i32 \<Rightarrow> ks_state \<Rightarrow> (ks_err + unit) \<times> ks_state" where
  "KS_EraseKey c i32KeyIdx s =
     (if rd_STS s AND KS_STS_BUSY_Msk c \<noteq> 0 then (Inl KS_ERR_BUSY, tick s)
      else
        let s1 = wr_METADATA (push_bit (KS_METADATA_DST_Pos c) (KS_MEM_code c KS_SRAM) OR
                              KS_TOMETAKEY c i32KeyIdx) (tick s);
            s2 = wr_STS (KS_STS_EIF_Msk c OR KS_STS_IF_Msk c) s1;
            s3 = wr_CTL (KS_OP_ERASE c OR KS_CTL_START_Msk c OR
                         (CTL s2 AND (KS_CTL_SILENT_Msk c OR KS_CTL_SCMB_Msk c))) s2;
            (ok, s4) = wait_busy c s3
        in if \<not> ok then (Inl KS_ERR_TIMEOUT, s4)
           else if rd_STS s4 AND KS_STS_EIF_Msk c \<noteq> 0 then (Inl KS_ERR_FAIL, tick s4)
           else (Inr (), tick s4))"

definition KS_EraseOTPKey :: "ks_consts \<Rightarrow> i32 \<Rightarrow> ks_state \<Rightarrow> (ks_err + unit) \<times> ks_state" where
  "KS_EraseOTPKey c i32KeyIdx s =
     (if rd_STS s AND KS_STS_BUSY_Msk c \<noteq> 0 then (Inl KS_ERR_BUSY, tick s)
      else
        let s1 = wr_METADATA (push_bit (KS_METADATA_DST_Pos c) (KS_MEM_code c KS_OTP) OR
                              KS_TOMETAKEY c i32KeyIdx) (tick s);
            s2 = wr_STS (KS_STS_EIF_Msk c OR KS_STS_IF_Msk c) s1;
            s3 = wr_CTL (KS_OP_ERASE c OR KS_CTL_START_Msk c) s2;
            (ok, s4) = wait_busy c s3
        in if \<not> ok then (Inl KS_ERR_TIMEOUT, s4)
           else if rd_STS s4 AND KS_STS_EIF_Msk c \<noteq> 0 then (Inl KS_ERR_FAIL, tick s4)
           else (Inr (), tick s4))"

definition KS_LockOTPKey :: "ks_consts \<Rightarrow> i32 \<Rightarrow> ks_state \<Rightarrow> (ks_err + unit) \<times> ks_state" where
  "KS_LockOTPKey c i32KeyIdx s =
     (if rd_STS s AND KS_STS_BUSY_Msk c \<noteq> 0 then (Inl KS_ERR_BUSY, tick s)
      else
        let s1 = wr_METADATA (push_bit (KS_METADATA_DST_Pos c) (KS_MEM_code c KS_OTP) OR
                              KS_TOMETAKEY c i32KeyIdx) (tick s);
            s2 = wr_STS (KS_STS_EIF_Msk c OR KS_STS_IF_Msk c) s1;
            s3 = wr_CTL (KS_OP_LOCK c OR KS_CTL_START_Msk c) s2;
            (ok, s4) = wait_busy c s3
        in if \<not> ok then (Inl KS_ERR_TIMEOUT, s4)
           else if rd_STS s4 AND KS_STS_EIF_Msk c \<noteq> 0 then (Inl KS_ERR_FAIL, tick s4)
           else (Inr (), tick s4))"

definition KS_EraseAll :: "ks_consts \<Rightarrow> KS_MEM_Type \<Rightarrow> ks_state \<Rightarrow> (ks_err + unit) \<times> ks_state" where
  "KS_EraseAll c eMemType s =
     (if rd_STS s AND KS_STS_BUSY_Msk c \<noteq> 0 then (Inl KS_ERR_BUSY, tick s)
      else
        let s1 = wr_METADATA (push_bit (KS_METADATA_DST_Pos c) (KS_MEM_code c eMemType)) (tick s);
            s2 = wr_STS (KS_STS_EIF_Msk c OR KS_STS_IF_Msk c) s1;
            s3 = wr_CTL (KS_OP_ERASE_ALL c OR KS_CTL_START_Msk c OR
                         (CTL s2 AND (KS_CTL_SILENT_Msk c OR KS_CTL_SCMB_Msk c))) s2;
            (ok, s4) = wait_busy c s3
        in if \<not> ok then (Inl KS_ERR_TIMEOUT, s4)
           else if rd_STS s4 AND KS_STS_EIF_Msk c \<noteq> 0 then (Inl KS_ERR_FAIL, tick s4)
           else (Inr (), tick s4))"

definition KS_RevokeKey ::
  "ks_consts \<Rightarrow> KS_MEM_Type \<Rightarrow> i32 \<Rightarrow> ks_state \<Rightarrow> (ks_err + unit) \<times> ks_state" where
  "KS_RevokeKey c eMemType i32KeyIdx s =
     (if rd_STS s AND KS_STS_BUSY_Msk c \<noteq> 0 then (Inl KS_ERR_BUSY, tick s)
      else
        let s1 = wr_METADATA (push_bit (KS_METADATA_DST_Pos c) (KS_MEM_code c eMemType) OR
                              KS_TOMETAKEY c i32KeyIdx) (tick s);
            s2 = wr_STS (KS_STS_EIF_Msk c OR KS_STS_IF_Msk c) s1;
            s3 = wr_CTL (KS_OP_REVOKE c OR KS_CTL_START_Msk c OR
                         (CTL s2 AND (KS_CTL_SILENT_Msk c OR KS_CTL_SCMB_Msk c))) s2;
            (ok, s4) = wait_busy c s3
        in if \<not> ok then (Inl KS_ERR_TIMEOUT, s4)
           else if rd_STS s4 AND KS_STS_EIF_Msk c \<noteq> 0 then (Inl KS_ERR_FAIL, tick s4)
           else (Inr (), tick s4))"

text \<open>\<^verbatim>\<open>KS_ToggleSRAM\<close> returns \<^verbatim>\<open>(KS->STS & KS_STS_RAMINV_Msk) > 0\<close>, one more read of the status
  register.\<close>

definition KS_ToggleSRAM :: "ks_consts \<Rightarrow> ks_state \<Rightarrow> (ks_err + bool) \<times> ks_state" where
  "KS_ToggleSRAM c s =
     (if rd_STS s AND KS_STS_BUSY_Msk c \<noteq> 0 then (Inl KS_ERR_BUSY, tick s)
      else
        let s1 = wr_METADATA (push_bit (KS_METADATA_DST_Pos c) (KS_MEM_code c KS_SRAM)) (tick s);
            s2 = wr_STS (KS_STS_EIF_Msk c OR KS_STS_IF_Msk c) s1;
            s3 = wr_CTL (KS_OP_REMAN c OR KS_CTL_START_Msk c OR
                         (CTL s2 AND (KS_CTL_SILENT_Msk c OR KS_CTL_SCMB_Msk c))) s2;
            (ok, s4) = wait_busy c s3
        in if \<not> ok then (Inl KS_ERR_TIMEOUT, s4)
           else if rd_STS s4 AND KS_STS_EIF_Msk c \<noteq> 0 then (Inl KS_ERR_FAIL, tick s4)
           else (Inr (0 < (rd_STS (tick s4) AND KS_STS_RAMINV_Msk c)), tick (tick s4)))"

subsection \<open>KS_WriteOTP\<close>

definition au8CntTbl_OTP :: "nat list" where
  "au8CntTbl_OTP = [4, 6, 6, 7, 8, 8, 8]"

text \<open>
  \<^verbatim>\<open>sidx\<close> is the size index of the metadata; the guard compares it with
  \<^verbatim>\<open>KS_META_256 >> KS_METADATA_SIZE_Pos\<close>, here on the unsigned values. The table
  \<^verbatim>\<open>au8CntTbl[7]\<close> is then indexed unchecked: \<open>KS_UNDEFINED\<close> is the read outside it.
\<close>

definition KS_WriteOTP ::
  "ks_consts \<Rightarrow> i32 \<Rightarrow> u32 \<Rightarrow> u32 list \<Rightarrow> ks_state \<Rightarrow> (ks_err + i32) \<times> ks_state" where
  "KS_WriteOTP c i32KeyIdx u32Meta au32Key s =
     (if rd_STS s AND KS_STS_BUSY_Msk c \<noteq> 0 then (Inl KS_ERR_BUSY, tick s)
      else
        let s1 = wr_METADATA (push_bit (KS_METADATA_DST_Pos c) (KS_MEM_code c KS_OTP) OR u32Meta OR
                              KS_TOMETAKEY c i32KeyIdx) (tick s);
            sidx = size_idx c u32Meta
        in if unat (drop_bit (KS_METADATA_SIZE_Pos c) (KS_META_256 c)) < sidx
           then (Inl KS_ERR_PARAMETER, s1)
           else if \<not> sidx < length au8CntTbl_OTP then (Inl KS_UNDEFINED, s1)
           else
             case copy_to_KEY au32Key 0 0 (au8CntTbl_OTP ! sidx) s1 of
               None \<Rightarrow> (Inl KS_UNDEFINED, s1)
             | Some s2 \<Rightarrow>
                 let s3 = wr_STS (KS_STS_EIF_Msk c OR KS_STS_IF_Msk c) s2;
                     s4 = wr_CTL (KS_OP_WRITE c OR KS_CTL_START_Msk c OR
                                  (CTL s3 AND (KS_CTL_SILENT_Msk c OR KS_CTL_SCMB_Msk c))) s3;
                     (ok, s5) = wait_busy c s4
                 in if \<not> ok then (Inl KS_ERR_TIMEOUT, s5)
                    else if rd_STS s5 AND KS_STS_EIF_Msk c \<noteq> 0 then (Inl KS_ERR_FAIL, tick s5)
                    else (Inr i32KeyIdx, tick s5))"

subsection \<open>A concrete layout and controller\<close>

text \<open>
  One register layout, on which the results below are exercised: status bits IF, EIF,
  BUSY, INITDONE and RAMINV at positions 0, 1, 2, 7 and 8; control bits START, CONT, INIT,
  SILENT and SCMB at positions 0, 7, 8, 10 and 15 with the opcode in bits 1 to 3; the
  metadata size field in bits 8 to 12, the key number in bits 20 to 25 and the destination
  in bits 30 and 31; a countdown of three polls.
\<close>

definition ks_layout0 :: ks_consts where
  "ks_layout0 =
     \<lparr> KS_TIMEOUT = 3,
       KS_STS_IF_Msk = 0x1, KS_STS_EIF_Msk = 0x2, KS_STS_BUSY_Msk = 0x4,
       KS_STS_INITDONE_Msk = 0x80, KS_STS_RAMINV_Msk = 0x100,
       KS_CTL_START_Msk = 0x1, KS_CTL_CONT_Msk = 0x80, KS_CTL_INIT_Msk = 0x100,
       KS_CTL_SILENT_Msk = 0x400, KS_CTL_SCMB_Msk = 0x8000,
       KS_OP_READ = 0x0, KS_OP_WRITE = 0x2, KS_OP_ERASE = 0x4, KS_OP_ERASE_ALL = 0x6,
       KS_OP_REVOKE = 0x8, KS_OP_REMAN = 0xA, KS_OP_LOCK = 0xE,
       KS_METADATA_DST_Pos = 30, KS_METADATA_SIZE_Pos = 8, KS_METADATA_SIZE_Msk = 0x1F00,
       KS_META_256 = 0x600,
       KS_TOMETAKEY = (\<lambda>x. push_bit 20 x AND 0x3F00000),
       KS_TOKEYIDX = (\<lambda>x. drop_bit 20 (x AND 0x3F00000)),
       KS_MEM_code = (\<lambda>m. case m of KS_SRAM \<Rightarrow> 0 | KS_FLASH \<Rightarrow> 1 | KS_OTP \<Rightarrow> 2) \<rparr>"

text \<open>A controller state with the given control register and status answers, nothing
  written yet; the window shows \<open>100 * k + i\<close> in word \<open>i\<close> after \<open>k\<close> commands.\<close>

definition ks_dev :: "u32 \<Rightarrow> (nat \<Rightarrow> u32) \<Rightarrow> ks_state" where
  "ks_dev ctl sts =
     \<lparr> CTL = ctl, METADATA = 0, KEY = replicate 8 0, ctl_log = [], sts_log = [], sts_cnt = 0,
       hw_sts = sts, hw_key = (\<lambda>k i. of_nat (100 * k + i)), hw_meta = (\<lambda>k. push_bit 20 (of_nat k)) \<rparr>"

text \<open>Status answers used below, as functions of the read number, in this layout: a
  controller that is busy at the first read only; one that shows the error flag and is
  never busy; an idle one; one that is always busy; one that is idle at the first read and
  busy (with the error flag) ever after; one that is busy for one poll after the first
  read and shows the error flag from then on.\<close>

definition sts_busy_once :: "nat \<Rightarrow> u32" where
  "sts_busy_once n = (if n = 0 then 0x4 else 0x80)"

definition sts_fault :: "nat \<Rightarrow> u32" where
  "sts_fault n = 0x82"

definition sts_idle :: "nat \<Rightarrow> u32" where
  "sts_idle n = 0x80"

definition sts_busy :: "nat \<Rightarrow> u32" where
  "sts_busy n = 0x84"

definition sts_stuck :: "nat \<Rightarrow> u32" where
  "sts_stuck n = (if n = 0 then 0x80 else 0x86)"

definition sts_late_fault :: "nat \<Rightarrow> u32" where
  "sts_late_fault n = (if n = 0 then 0x80 else if n = 1 then 0x84 else 0x82)"

subsection \<open>The width of the size field\<close>

text \<open>
  Modelled from the spec: the register header that defines \<^verbatim>\<open>KS_METADATA_SIZE_Msk\<close> and
  \<^verbatim>\<open>KS_METADATA_SIZE_Pos\<close> is missing. The size field of the metadata word decodes to any
  value from 0 to 31: it is five bits wide, and lies inside the 32-bit word.
\<close>

definition ks_size_field :: "ks_consts \<Rightarrow> bool" where
  "ks_size_field c \<longleftrightarrow>
     KS_METADATA_SIZE_Msk c = push_bit (KS_METADATA_SIZE_Pos c) 0x1F \<and> KS_METADATA_SIZE_Pos c \<le> 27"

subsection \<open>Auxiliary definitions\<close>

text \<open>A bound on eight times the number of passes of the \<^verbatim>\<open>do ... while (i32Cnt > 0)\<close> loops
  entered with the signed count \<open>x\<close>.\<close>

definition chunk_bound :: "i32 \<Rightarrow> nat" where
  "chunk_bound x = (if 0 < sint x then nat (sint x) + 7 else 2 ^ 31 + 14)"

text \<open>
  The single-command functions share their text after the entry check: three register
  writes (\<open>cmd_start\<close>), then the wait and the test of the error flag (\<open>cmd_tail\<close>, where \<open>ret\<close>
  computes the value returned on success). The two definitions are used to state facts
  about these functions; the functions themselves are defined above, each from its own text.
\<close>

definition cmd_tail ::
  "ks_consts \<Rightarrow> (ks_state \<Rightarrow> 'a \<times> ks_state) \<Rightarrow> ks_state \<Rightarrow> (ks_err + 'a) \<times> ks_state" where
  "cmd_tail c ret s =
     (let (ok, s4) = wait_busy c s in
      if \<not> ok then (Inl KS_ERR_TIMEOUT, s4)
      else if rd_STS s4 AND KS_STS_EIF_Msk c \<noteq> 0 then (Inl KS_ERR_FAIL, tick s4)
      else (case ret (tick s4) of (v, s5) \<Rightarrow> (Inr v, s5)))"

definition cmd_start :: "u32 \<Rightarrow> u32 \<Rightarrow> u32 \<Rightarrow> ks_state \<Rightarrow> ks_state" where
  "cmd_start meta clr ctl s = wr_CTL ctl (wr_STS clr (wr_METADATA meta (tick s)))"

section \<open>Auxiliary facts\<close>

subsection \<open>Words\<close>

lemma word_pred_unat:
  fixes u :: u32
  assumes "u \<noteq> 0"
  shows "unat (u - 1) = unat u - 1" and "0 < unat u"
  using assms by (simp_all add: unat_minus_one unat_gt_0)

lemma sint_sub8:
  fixes x :: i32
  assumes "0 < sint x"
  shows "sint (x - 8) = sint x - 8"
  using assms sint_lt [of x] by (simp add: sint_word_ariths signed_take_bit_int_eq_self)

lemma sint_add8:
  fixes x :: i32
  assumes "0 \<le> sint x" "sint x + 8 < 2 ^ 31"
  shows "sint (x + 8) = sint x + 8"
  using assms by (simp add: sint_word_ariths signed_take_bit_int_eq_self)

lemma sint_of_unat:
  fixes x :: u32
  assumes "unat x < 2 ^ 31"
  shows "sint x = int (unat x)"
proof -
  have "int (unat x) < int (2 ^ 31)" using assms by (simp only: of_nat_less_iff)
  then have "uint x < 2 ^ 31" by simp
  moreover have "0 \<le> uint x" by simp
  ultimately have "signed_take_bit 31 (uint x) = uint x"
    by (intro signed_take_bit_int_eq_self) linarith+
  then show ?thesis
    by (simp add: sint_uint)
qed

lemma mask5: "(0x1F :: u32) = mask 5"
  by (simp add: mask_eq_exp_minus_1)

lemma drop_and_push:
  fixes m :: u32
  assumes "p \<le> 27"
  shows "drop_bit p (m AND push_bit p 0x1F) = drop_bit p m AND 0x1F"
  unfolding mask5 using assms by (intro bit_word_eqI) (auto simp: bit_simps)

lemma size_idx_le31:
  assumes "ks_size_field c"
  shows "size_idx c m \<le> 31"
proof -
  have msk: "KS_METADATA_SIZE_Msk c = push_bit (KS_METADATA_SIZE_Pos c) 0x1F"
    and pos: "KS_METADATA_SIZE_Pos c \<le> 27"
    using assms by (simp_all add: ks_size_field_def)
  have "drop_bit (KS_METADATA_SIZE_Pos c) m AND 0x1F \<le> (0x1F :: u32)"
    by (rule word_and_le1)
  then have "unat (drop_bit (KS_METADATA_SIZE_Pos c) m AND 0x1F) \<le> 31"
    by (simp add: word_le_nat_alt)
  then show ?thesis
    unfolding size_idx_def msk drop_and_push [OF pos] .
qed

lemma size_idx_attained:
  assumes "ks_size_field c" "v \<le> 31"
  shows "size_idx c (push_bit (KS_METADATA_SIZE_Pos c) (of_nat v)) = v"
proof -
  let ?p = "KS_METADATA_SIZE_Pos c"
  have msk: "KS_METADATA_SIZE_Msk c = push_bit ?p 0x1F" and pos: "?p \<le> 27"
    using assms(1) by (simp_all add: ks_size_field_def)
  have v: "(of_nat v :: u32) AND mask 5 = of_nat v"
    using assms(2) by (simp add: take_bit_of_nat take_bit_nat_eq_self flip: take_bit_eq_mask)
  have "drop_bit ?p (push_bit ?p (of_nat v :: u32)) = of_nat v"
  proof (rule bit_word_eqI)
    fix n assume "n < LENGTH(32)"
    have "bit (of_nat v :: u32) n \<Longrightarrow> n < 5"
      using v by (metis bit_and_iff bit_mask_iff)
    then show "bit (drop_bit ?p (push_bit ?p (of_nat v :: u32))) n = bit (of_nat v :: u32) n"
      using pos by (auto simp: bit_simps)
  qed
  then have "drop_bit ?p (push_bit ?p (of_nat v :: u32)) AND 0x1F = of_nat v"
    using v by (simp add: mask5)
  then have "unat (drop_bit ?p (push_bit ?p (of_nat v :: u32)) AND 0x1F) = v"
    using assms(2) by (simp add: unat_of_nat take_bit_nat_eq_self)
  then show ?thesis
    unfolding size_idx_def msk drop_and_push [OF pos] .
qed

lemma idx_cases21:
  "(i :: nat) \<le> 20 \<Longrightarrow>
   i \<in> {0, 1, 2, 3, 4, 5, 6, 7, 8, 9, 10, 11, 12, 13, 14, 15, 16, 17, 18, 19, 20}"
  by (simp only: insert_iff empty_iff) arith

subsection \<open>Register accesses\<close>

lemma tick_simps [simp]:
  "sts_cnt (tick s) = Suc (sts_cnt s)" "hw_sts (tick s) = hw_sts s" "hw_key (tick s) = hw_key s"
  "hw_meta (tick s) = hw_meta s" "CTL (tick s) = CTL s" "METADATA (tick s) = METADATA s"
  "KEY (tick s) = KEY s" "ctl_log (tick s) = ctl_log s" "sts_log (tick s) = sts_log s"
  by (simp_all add: tick_def)

lemma wr_CTL_simps [simp]:
  "sts_cnt (wr_CTL v s) = sts_cnt s" "hw_sts (wr_CTL v s) = hw_sts s" "hw_key (wr_CTL v s) = hw_key s"
  "hw_meta (wr_CTL v s) = hw_meta s" "CTL (wr_CTL v s) = v" "METADATA (wr_CTL v s) = METADATA s"
  "KEY (wr_CTL v s) = KEY s" "ctl_log (wr_CTL v s) = ctl_log s @ [v]" "sts_log (wr_CTL v s) = sts_log s"
  by (simp_all add: wr_CTL_def)

lemma wr_STS_simps [simp]:
  "sts_cnt (wr_STS v s) = sts_cnt s" "hw_sts (wr_STS v s) = hw_sts s" "hw_key (wr_STS v s) = hw_key s"
  "hw_meta (wr_STS v s) = hw_meta s" "CTL (wr_STS v s) = CTL s" "METADATA (wr_STS v s) = METADATA s"
  "KEY (wr_STS v s) = KEY s" "ctl_log (wr_STS v s) = ctl_log s" "sts_log (wr_STS v s) = sts_log s @ [v]"
  by (simp_all add: wr_STS_def)

lemma wr_METADATA_simps [simp]:
  "sts_cnt (wr_METADATA v s) = sts_cnt s" "hw_sts (wr_METADATA v s) = hw_sts s"
  "hw_key (wr_METADATA v s) = hw_key s" "hw_meta (wr_METADATA v s) = hw_meta s"
  "CTL (wr_METADATA v s) = CTL s" "METADATA (wr_METADATA v s) = v"
  "KEY (wr_METADATA v s) = KEY s" "ctl_log (wr_METADATA v s) = ctl_log s"
  "sts_log (wr_METADATA v s) = sts_log s"
  by (simp_all add: wr_METADATA_def)

lemma wr_KEY_simps [simp]:
  "sts_cnt (wr_KEY i v s) = sts_cnt s" "hw_sts (wr_KEY i v s) = hw_sts s"
  "hw_key (wr_KEY i v s) = hw_key s" "hw_meta (wr_KEY i v s) = hw_meta s"
  "CTL (wr_KEY i v s) = CTL s" "METADATA (wr_KEY i v s) = METADATA s"
  "KEY (wr_KEY i v s) = (KEY s)[i := v]" "ctl_log (wr_KEY i v s) = ctl_log s"
  "sts_log (wr_KEY i v s) = sts_log s"
  by (simp_all add: wr_KEY_def)

subsection \<open>The countdown loop\<close>

lemma wait_while_timeout:
  "(\<forall>j \<le> unat (t - 1). cond (hw_sts s (sts_cnt s + j))) \<Longrightarrow>
   wait_while cond t s = (False, s\<lparr>sts_cnt := sts_cnt s + unat (t - 1) + 1\<rparr>)"
proof (induction cond t s rule: wait_while.induct)
  case (1 cond t s)
  define u where "u = t - 1"
  have all: "\<forall>j \<le> unat u. cond (hw_sts s (sts_cnt s + j))"
    using "1.prems" by (simp add: u_def)
  then have c0: "cond (rd_STS s)"
    by (auto simp: rd_STS_def dest: spec [of _ 0])
  show ?case
  proof (cases "u = 0")
    case True
    then show ?thesis
      using c0 by (subst wait_while.simps) (simp add: u_def [symmetric] tick_def)
  next
    case False
    have p: "unat (u - 1) = unat u - 1" "0 < unat u"
      using word_pred_unat [OF False] by auto
    have "\<forall>j \<le> unat (u - 1). cond (hw_sts (tick s) (sts_cnt (tick s) + j))"
    proof (intro allI impI)
      fix j assume "j \<le> unat (u - 1)"
      then have "Suc j \<le> unat u" using p by arith
      then show "cond (hw_sts (tick s) (sts_cnt (tick s) + j))"
        using all by (auto dest: spec [of _ "Suc j"])
    qed
    then have "wait_while cond u (tick s) = (False, (tick s)\<lparr>sts_cnt := sts_cnt (tick s) + unat (u - 1) + 1\<rparr>)"
      using "1.IH" [OF c0] False unfolding u_def [symmetric] by blast
    moreover have "(tick s)\<lparr>sts_cnt := sts_cnt (tick s) + unat (u - 1) + 1\<rparr> = s\<lparr>sts_cnt := sts_cnt s + unat u + 1\<rparr>"
      using p by (simp add: tick_def)
    ultimately show ?thesis
      using c0 False by (subst wait_while.simps) (simp add: u_def [symmetric])
  qed
qed


lemma wait_while_cases:
  "wait_while cond t s = (b, s') \<Longrightarrow>
   \<exists>k \<le> unat (t - 1). s' = s\<lparr>sts_cnt := sts_cnt s + k + 1\<rparr> \<and>
     (\<forall>i < k. cond (hw_sts s (sts_cnt s + i))) \<and>
     (if b then \<not> cond (hw_sts s (sts_cnt s + k))
      else k = unat (t - 1) \<and> cond (hw_sts s (sts_cnt s + k)))"
proof (induction cond t s arbitrary: b s' rule: wait_while.induct)
  case (1 cond t s)
  define u where "u = t - 1"
  note eq = "1.prems" [unfolded wait_while.simps [of cond t s], folded u_def]
  show ?case
  proof (cases "cond (rd_STS s)")
    case False
    then have "b" "s' = tick s" using eq by auto
    then show ?thesis
      using False by (intro exI [of _ 0]) (simp add: tick_def rd_STS_def)
  next
    case True
    show ?thesis
    proof (cases "u = 0")
      case u0: True
      then have "\<not> b" "s' = tick s" using eq True by auto
      then show ?thesis
        using True u0 by (intro exI [of _ 0]) (simp add: tick_def rd_STS_def u_def [symmetric])
    next
      case False
      have p: "unat (u - 1) = unat u - 1" "0 < unat u"
        using word_pred_unat [OF False] by auto
      have "wait_while cond u (tick s) = (b, s')"
        using eq True False by simp
      from "1.IH" [OF True, folded u_def, OF False this]
      obtain k where k: "k \<le> unat (u - 1)" "s' = (tick s)\<lparr>sts_cnt := sts_cnt (tick s) + k + 1\<rparr>"
        "\<forall>i < k. cond (hw_sts (tick s) (sts_cnt (tick s) + i))"
        "if b then \<not> cond (hw_sts (tick s) (sts_cnt (tick s) + k))
         else k = unat (u - 1) \<and> cond (hw_sts (tick s) (sts_cnt (tick s) + k))"
        by blast
      have all: "\<forall>i < Suc k. cond (hw_sts s (sts_cnt s + i))"
      proof (intro allI impI)
        fix i assume "i < Suc k"
        show "cond (hw_sts s (sts_cnt s + i))"
        proof (cases i)
          case 0
          then show ?thesis using True by (simp add: rd_STS_def)
        next
          case (Suc i')
          then have "i' < k" using \<open>i < Suc k\<close> by simp
          then show ?thesis using k(3) Suc by auto
        qed
      qed
      have "Suc k \<le> unat u" using k(1) p by arith
      moreover have "s' = s\<lparr>sts_cnt := sts_cnt s + Suc k + 1\<rparr>"
        using k(2) by (simp add: tick_def)
      moreover have "if b then \<not> cond (hw_sts s (sts_cnt s + Suc k))
         else Suc k = unat u \<and> cond (hw_sts s (sts_cnt s + Suc k))"
        using k(4) p by (auto split: if_splits)
      ultimately show ?thesis
        using all unfolding u_def [symmetric] by blast
    qed
  qed
qed

lemma wait_while_exit:
  assumes "j \<le> unat (t - 1)" "\<forall>i < j. cond (hw_sts s (sts_cnt s + i))"
    "\<not> cond (hw_sts s (sts_cnt s + j))"
  shows "wait_while cond t s = (True, s\<lparr>sts_cnt := sts_cnt s + j + 1\<rparr>)"
proof -
  obtain b s' where r: "wait_while cond t s = (b, s')" by (cases "wait_while cond t s")
  from wait_while_cases [OF r] obtain k where k: "k \<le> unat (t - 1)"
    "s' = s\<lparr>sts_cnt := sts_cnt s + k + 1\<rparr>" "\<forall>i < k. cond (hw_sts s (sts_cnt s + i))"
    "if b then \<not> cond (hw_sts s (sts_cnt s + k))
     else k = unat (t - 1) \<and> cond (hw_sts s (sts_cnt s + k))"
    by blast
  have "\<not> j < k" using k(3) assms(3) by blast
  have kc: "b \<or> cond (hw_sts s (sts_cnt s + k))" using k(4) by (auto split: if_splits)
  have "b"
  proof (rule ccontr)
    assume "\<not> b"
    then have "k = unat (t - 1)" "cond (hw_sts s (sts_cnt s + k))" using k(4) by auto
    with assms \<open>\<not> j < k\<close> show False
      by (metis le_neq_implies_less order_le_less)
  qed
  then have "\<not> cond (hw_sts s (sts_cnt s + k))" using k(4) by simp
  then have "\<not> k < j" using assms(2) by blast
  with \<open>\<not> j < k\<close> have "k = j" by arith
  then show ?thesis using r k(2) \<open>b\<close> by simp
qed

subsection \<open>The loop of KS_Read\<close>

lemma chunk_bound_step:
  assumes "0 <s x - 8"
  shows "8 + chunk_bound (x - 8) \<le> chunk_bound x"
proof (cases "0 < sint x")
  case True
  then show ?thesis
    using assms sint_sub8 [OF True] by (simp add: chunk_bound_def word_sless_alt)
next
  case False
  have "sint (x - 8) < 2 ^ 31" using sint_lt [of "x - 8"] by simp
  then show ?thesis
    using assms False by (simp add: chunk_bound_def word_sless_alt)
qed

lemma chunk_bound_ge8: "8 \<le> chunk_bound x"
proof (cases "0 < sint x")
  case True
  then have "1 \<le> nat (sint x)" by linarith
  then show ?thesis using True by (simp add: chunk_bound_def)
next
  case False
  then show ?thesis by (simp add: chunk_bound_def)
qed

lemma wait_busy_cases:
  assumes "wait_busy c s = (b, s')"
  shows "\<exists>k \<le> unat (KS_TIMEOUT c - 1). s' = s\<lparr>sts_cnt := sts_cnt s + k + 1\<rparr> \<and>
     (\<forall>i < k. is_busy c (hw_sts s (sts_cnt s + i))) \<and>
     (if b then \<not> is_busy c (hw_sts s (sts_cnt s + k))
      else k = unat (KS_TIMEOUT c - 1) \<and> is_busy c (hw_sts s (sts_cnt s + k)))"
  using wait_while_cases [OF assms [unfolded wait_busy_def]] .

lemma wait_busy_frame:
  "hw_sts (snd (wait_busy c s)) = hw_sts s" "hw_key (snd (wait_busy c s)) = hw_key s"
  "hw_meta (snd (wait_busy c s)) = hw_meta s" "CTL (snd (wait_busy c s)) = CTL s"
  "METADATA (snd (wait_busy c s)) = METADATA s" "KEY (snd (wait_busy c s)) = KEY s"
  "ctl_log (snd (wait_busy c s)) = ctl_log s" "sts_log (snd (wait_busy c s)) = sts_log s"
  "sts_cnt s < sts_cnt (snd (wait_busy c s))"
  "sts_cnt (snd (wait_busy c s)) \<le> sts_cnt s + unat (KS_TIMEOUT c - 1) + 1"
proof -
  obtain b s' where r: "wait_busy c s = (b, s')" by (cases "wait_busy c s")
  from wait_busy_cases [OF r] obtain k where "k \<le> unat (KS_TIMEOUT c - 1)"
    "s' = s\<lparr>sts_cnt := sts_cnt s + k + 1\<rparr>" by blast
  then show "hw_sts (snd (wait_busy c s)) = hw_sts s" "hw_key (snd (wait_busy c s)) = hw_key s"
  "hw_meta (snd (wait_busy c s)) = hw_meta s" "CTL (snd (wait_busy c s)) = CTL s"
  "METADATA (snd (wait_busy c s)) = METADATA s" "KEY (snd (wait_busy c s)) = KEY s"
  "ctl_log (snd (wait_busy c s)) = ctl_log s" "sts_log (snd (wait_busy c s)) = sts_log s"
  "sts_cnt s < sts_cnt (snd (wait_busy c s))"
  "sts_cnt (snd (wait_busy c s)) \<le> sts_cnt s + unat (KS_TIMEOUT c - 1) + 1"
    using r by simp_all
qed

lemma copy_from_KEY_length:
  "copy_from_KEY s off i n buf = Some buf' \<Longrightarrow> length buf' = length buf"
  by (induction n arbitrary: i buf) (auto split: if_splits)

lemma KS_Read_loop_frame:
  "KS_Read_loop c u32Cont i32Cnt offset au32Key s = (r, buf', s') \<Longrightarrow>
     hw_sts s' = hw_sts s \<and> hw_key s' = hw_key s \<and> hw_meta s' = hw_meta s \<and>
     METADATA s' = METADATA s \<and> KEY s' = KEY s \<and> length buf' = length au32Key \<and>
     (r = Inr () \<or> r = Inl KS_ERR_TIMEOUT \<or> r = Inl KS_UNDEFINED) \<and>
     (\<exists>ws. ctl_log s' = ctl_log s @ ws \<and> ws \<noteq> [] \<and> 8 * length ws \<le> chunk_bound i32Cnt \<and>
           sts_cnt s < sts_cnt s' \<and>
           sts_cnt s' \<le> sts_cnt s + length ws * (unat (KS_TIMEOUT c - 1) + 1))"
proof (induction c u32Cont i32Cnt offset au32Key s arbitrary: r buf' s' rule: KS_Read_loop.induct)
  case (1 c u32Cont i32Cnt offset au32Key s)
  define s1 where "s1 = wr_STS (KS_STS_EIF_Msk c OR KS_STS_IF_Msk c) s"
  define v where "v = u32Cont OR KS_OP_READ c OR KS_CTL_START_Msk c OR
     (CTL s1 AND (KS_CTL_SILENT_Msk c OR KS_CTL_SCMB_Msk c))"
  define s2 where "s2 = wr_CTL v s1"
  define w where "w = wait_busy c s2"
  define cnt where "cnt = (if 8 <s i32Cnt then 8 else i32Cnt)"
  note fr = wait_busy_frame [where c = c and s = s2, folded w_def]
  have base: "hw_sts (snd w) = hw_sts s" "hw_key (snd w) = hw_key s" "hw_meta (snd w) = hw_meta s"
    "METADATA (snd w) = METADATA s" "KEY (snd w) = KEY s" "ctl_log (snd w) = ctl_log s @ [v]"
    "sts_cnt s < sts_cnt (snd w)" "sts_cnt (snd w) \<le> sts_cnt s + (unat (KS_TIMEOUT c - 1) + 1)"
    using fr by (simp_all add: s2_def s1_def)
  have eq: "(if \<not> fst w then (Inl KS_ERR_TIMEOUT, au32Key, snd w)
         else case copy_from_KEY (snd w) (sint offset) 0 (nat (sint cnt)) au32Key of
             None \<Rightarrow> (Inl KS_UNDEFINED, au32Key, snd w)
           | Some buf \<Rightarrow>
               if 0 <s i32Cnt - 8
               then KS_Read_loop c (KS_CTL_CONT_Msk c) (i32Cnt - 8) (offset + 8) buf (snd w)
               else (Inr (), buf, snd w)) = (r, buf', s')"
    using "1.prems" unfolding KS_Read_loop.simps [of c u32Cont i32Cnt offset au32Key s]
    unfolding Let_def w_def s2_def v_def s1_def cnt_def .
  have one: "\<exists>ws. ctl_log (snd w) = ctl_log s @ ws \<and> ws \<noteq> [] \<and> 8 * length ws \<le> chunk_bound i32Cnt \<and>
           sts_cnt s < sts_cnt (snd w) \<and>
           sts_cnt (snd w) \<le> sts_cnt s + length ws * (unat (KS_TIMEOUT c - 1) + 1)"
    using base chunk_bound_ge8 [of i32Cnt] by (intro exI [of _ "[v]"]) simp
  show ?case
  proof (cases "fst w")
    case False
    then have "r = Inl KS_ERR_TIMEOUT" "buf' = au32Key" "s' = snd w" using eq by auto
    then show ?thesis using base one by simp
  next
    case True
    show ?thesis
    proof (cases "copy_from_KEY (snd w) (sint offset) 0 (nat (sint cnt)) au32Key")
      case None
      then have "r = Inl KS_UNDEFINED" "buf' = au32Key" "s' = snd w" using eq True by auto
      then show ?thesis using base one by simp
    next
      case (Some buf1)
      note len1 = copy_from_KEY_length [OF Some]
      show ?thesis
      proof (cases "0 <s i32Cnt - 8")
        case False
        then have "r = Inr ()" "buf' = buf1" "s' = snd w" using eq True Some by auto
        then show ?thesis using base one len1 by simp
      next
        case rec: True
        have call: "KS_Read_loop c (KS_CTL_CONT_Msk c) (i32Cnt - 8) (offset + 8) buf1 (snd w) = (r, buf', s')"
          using eq True Some rec by simp
        have t: "\<not> \<not> fst w" using True by simp
        note ih = "1.IH" [OF s1_def s2_def [unfolded v_def] w_def t cnt_def Some rec call]
        then obtain ws where ws: "ctl_log s' = ctl_log (snd w) @ ws" "ws \<noteq> []"
          "8 * length ws \<le> chunk_bound (i32Cnt - 8)" "sts_cnt (snd w) < sts_cnt s'"
          "sts_cnt s' \<le> sts_cnt (snd w) + length ws * (unat (KS_TIMEOUT c - 1) + 1)"
          by blast
        have "ctl_log s' = ctl_log s @ (v # ws)" using ws(1) base by simp
        moreover have "8 * length (v # ws) \<le> chunk_bound i32Cnt"
          using ws(3) chunk_bound_step [OF rec] by simp
        moreover have "sts_cnt s < sts_cnt s'" using ws(4) base by simp
        moreover have "sts_cnt s' \<le> sts_cnt s + length (v # ws) * (unat (KS_TIMEOUT c - 1) + 1)"
          using ws(5) base by simp
        ultimately have "\<exists>ws. ctl_log s' = ctl_log s @ ws \<and> ws \<noteq> [] \<and> 8 * length ws \<le> chunk_bound i32Cnt \<and>
           sts_cnt s < sts_cnt s' \<and>
           sts_cnt s' \<le> sts_cnt s + length ws * (unat (KS_TIMEOUT c - 1) + 1)"
          by (intro exI [of _ "v # ws"]) simp
        then show ?thesis using ih base len1 by simp
      qed
    qed
  qed
qed

lemma copy_from_KEY_ok:
  assumes "off + i + n \<le> length buf"
  shows "\<exists>buf'. copy_from_KEY s (int off) i n buf = Some buf' \<and> length buf' = length buf \<and>
           (\<forall>k < n. buf' ! (off + i + k) = rd_KEY s (i + k)) \<and>
           (\<forall>j. j < off + i \<or> off + i + n \<le> j \<longrightarrow> buf' ! j = buf ! j)"
  using assms
proof (induction n arbitrary: i buf)
  case 0
  then show ?case by simp
next
  case (Suc n)
  let ?b = "buf[off + i := rd_KEY s i]"
  have "off + Suc i + n \<le> length ?b" using Suc.prems by simp
  from Suc.IH [OF this] obtain buf' where b: "copy_from_KEY s (int off) (Suc i) n ?b = Some buf'"
    "length buf' = length ?b" "\<forall>k < n. buf' ! (off + Suc i + k) = rd_KEY s (Suc i + k)"
    "\<forall>j. j < off + Suc i \<or> off + Suc i + n \<le> j \<longrightarrow> buf' ! j = ?b ! j"
    by blast
  have step: "copy_from_KEY s (int off) i (Suc n) buf = Some buf'"
    using Suc.prems b(1) by (simp add: nat_add_distrib)
  have here: "buf' ! (off + i) = rd_KEY s i"
    using b(4) Suc.prems by simp
  have copied: "\<forall>k < Suc n. buf' ! (off + i + k) = rd_KEY s (i + k)"
  proof (intro allI impI)
    fix k assume "k < Suc n"
    show "buf' ! (off + i + k) = rd_KEY s (i + k)"
    proof (cases k)
      case 0
      then show ?thesis using here by simp
    next
      case (Suc k')
      then have "k' < n" using \<open>k < Suc n\<close> by simp
      then show ?thesis using b(3) Suc by simp
    qed
  qed
  have frame: "\<forall>j. j < off + i \<or> off + i + Suc n \<le> j \<longrightarrow> buf' ! j = buf ! j"
    using b(4) by auto
  show ?case
    using step b(2) copied frame by simp
qed

lemma or_and_self:
  fixes a b :: u32
  shows "(a OR b) AND a = a"
  by (rule bit_word_eqI) (auto simp: bit_simps)

lemma KS_Read_loop_copy:
  assumes "KS_Read_loop c u32Cont i32Cnt offset au32Key s = (r, buf', s')"
    "r \<noteq> Inl KS_ERR_TIMEOUT"
    "sint i32Cnt = int n" "0 < n" "sint offset = int off"
    "off + n \<le> length au32Key" "off + n < 2 ^ 31"
  shows "r = Inr () \<and>
    (\<forall>j < n. buf' ! (off + j) = hw_key s (length (ctl_log s) + 1 + j div 8) (j mod 8)) \<and>
    (\<forall>j. j < off \<or> off + n \<le> j \<longrightarrow> buf' ! j = au32Key ! j) \<and>
    (\<exists>ws. ctl_log s' = ctl_log s @ ws \<and> length ws = (n + 7) div 8 \<and>
       ws ! 0 = u32Cont OR KS_OP_READ c OR KS_CTL_START_Msk c OR
                (CTL s AND (KS_CTL_SILENT_Msk c OR KS_CTL_SCMB_Msk c)) \<and>
       (\<forall>k. 0 < k \<and> k < length ws \<longrightarrow> ws ! k AND KS_CTL_CONT_Msk c = KS_CTL_CONT_Msk c))"
  using assms
proof (induction c u32Cont i32Cnt offset au32Key s arbitrary: r buf' s' n off
    rule: KS_Read_loop.induct)
  case (1 c u32Cont i32Cnt offset au32Key s)
  define s1 where "s1 = wr_STS (KS_STS_EIF_Msk c OR KS_STS_IF_Msk c) s"
  define v where "v = u32Cont OR KS_OP_READ c OR KS_CTL_START_Msk c OR
     (CTL s1 AND (KS_CTL_SILENT_Msk c OR KS_CTL_SCMB_Msk c))"
  define s2 where "s2 = wr_CTL v s1"
  define w where "w = wait_busy c s2"
  define cnt where "cnt = (if 8 <s i32Cnt then 8 else i32Cnt)"
  note fr = wait_busy_frame [where c = c and s = s2, folded w_def]
  have base: "hw_key (snd w) = hw_key s" "ctl_log (snd w) = ctl_log s @ [v]" "CTL (snd w) = v"
    using fr by (simp_all add: s2_def s1_def)
  have v_eq: "v = u32Cont OR KS_OP_READ c OR KS_CTL_START_Msk c OR
     (CTL s AND (KS_CTL_SILENT_Msk c OR KS_CTL_SCMB_Msk c))"
    by (simp add: v_def s1_def)
  have eq: "(if \<not> fst w then (Inl KS_ERR_TIMEOUT, au32Key, snd w)
         else case copy_from_KEY (snd w) (sint offset) 0 (nat (sint cnt)) au32Key of
             None \<Rightarrow> (Inl KS_UNDEFINED, au32Key, snd w)
           | Some buf \<Rightarrow>
               if 0 <s i32Cnt - 8
               then KS_Read_loop c (KS_CTL_CONT_Msk c) (i32Cnt - 8) (offset + 8) buf (snd w)
               else (Inr (), buf, snd w)) = (r, buf', s')"
    using "1.prems"(1) unfolding KS_Read_loop.simps [of c u32Cont i32Cnt offset au32Key s]
    unfolding Let_def w_def s2_def v_def s1_def cnt_def .
  have ok: "fst w" using eq "1.prems"(2) by (auto split: if_splits)
  have t: "\<not> \<not> fst w" using ok by simp
  have pos: "0 < sint i32Cnt" using "1.prems"(3,4) by simp
  have rec_iff: "0 <s i32Cnt - 8 \<longleftrightarrow> 8 < n"
    using sint_sub8 [OF pos] "1.prems"(3) by (simp add: word_sless_alt)
  have cnt_n: "nat (sint cnt) = min 8 n"
    using "1.prems"(3) by (auto simp: cnt_def word_sless_alt)
  have room: "off + 0 + min 8 n \<le> length au32Key" using "1.prems"(6) by simp
  from copy_from_KEY_ok [OF room, of "snd w"]
  obtain buf1 where b1: "copy_from_KEY (snd w) (int off) 0 (min 8 n) au32Key = Some buf1"
    "length buf1 = length au32Key" "\<forall>k < min 8 n. buf1 ! (off + k) = rd_KEY (snd w) k"
    "\<forall>j. j < off \<or> off + min 8 n \<le> j \<longrightarrow> buf1 ! j = au32Key ! j"
    by auto
  have Some: "copy_from_KEY (snd w) (sint offset) 0 (nat (sint cnt)) au32Key = Some buf1"
    using b1(1) by (simp add: cnt_n "1.prems"(5))
  have key1: "\<forall>k < min 8 n. buf1 ! (off + k) = hw_key s (length (ctl_log s) + 1) k"
    using b1(3) by (simp add: rd_KEY_def base)
  show ?case
  proof (cases "8 < n")
    case False
    then have res: "r = Inr ()" "buf' = buf1" "s' = snd w"
      using eq ok Some rec_iff by auto
    have n8: "min 8 n = n" "(n + 7) div 8 = 1" using False "1.prems"(4) by auto
    have "\<forall>j < n. buf' ! (off + j) = hw_key s (length (ctl_log s) + 1 + j div 8) (j mod 8)"
      using key1 False res by (simp add: n8)
    moreover have "\<forall>j. j < off \<or> off + n \<le> j \<longrightarrow> buf' ! j = au32Key ! j"
      using b1(4) res by (simp add: n8)
    moreover have "\<exists>ws. ctl_log s' = ctl_log s @ ws \<and> length ws = (n + 7) div 8 \<and>
       ws ! 0 = u32Cont OR KS_OP_READ c OR KS_CTL_START_Msk c OR
                (CTL s AND (KS_CTL_SILENT_Msk c OR KS_CTL_SCMB_Msk c)) \<and>
       (\<forall>k. 0 < k \<and> k < length ws \<longrightarrow> ws ! k AND KS_CTL_CONT_Msk c = KS_CTL_CONT_Msk c)"
      using base res v_eq by (intro exI [of _ "[v]"]) (simp add: n8)
    ultimately show ?thesis using res by blast
  next
    case True
    then have rec: "0 <s i32Cnt - 8" using rec_iff by simp
    have call: "KS_Read_loop c (KS_CTL_CONT_Msk c) (i32Cnt - 8) (offset + 8) buf1 (snd w) = (r, buf', s')"
      using eq ok Some rec by simp
    have c': "sint (i32Cnt - 8) = int (n - 8)"
      using sint_sub8 [OF pos] "1.prems"(3) True by simp
    have o': "sint (offset + 8) = int (off + 8)"
    proof -
      have "sint offset + 8 < 2 ^ 31" using "1.prems"(5,7) True by simp
      moreover have "0 \<le> sint offset" using "1.prems"(5) by simp
      ultimately show ?thesis using sint_add8 [of offset] "1.prems"(5) by simp
    qed
    have len': "off + 8 + (n - 8) \<le> length buf1" using "1.prems"(6) True b1(2) by simp
    have lt': "off + 8 + (n - 8) < 2 ^ 31" using "1.prems"(7) True by simp
    have n': "0 < n - 8" using True by simp
    note ih = "1.IH" [OF s1_def s2_def [unfolded v_def] w_def t cnt_def Some rec call
        "1.prems"(2) c' n' o' len' lt']
    then have r: "r = Inr ()" by blast
    from ih have cp: "\<forall>j < n - 8. buf' ! (off + 8 + j) =
        hw_key (snd w) (length (ctl_log (snd w)) + 1 + j div 8) (j mod 8)" by blast
    from ih have frm: "\<forall>j. j < off + 8 \<or> off + 8 + (n - 8) \<le> j \<longrightarrow> buf' ! j = buf1 ! j" by blast
    from ih obtain ws where ws: "ctl_log s' = ctl_log (snd w) @ ws" "length ws = (n - 8 + 7) div 8"
      "\<forall>k. 0 < k \<and> k < length ws \<longrightarrow> ws ! k AND KS_CTL_CONT_Msk c = KS_CTL_CONT_Msk c"
      "ws ! 0 = KS_CTL_CONT_Msk c OR KS_OP_READ c OR KS_CTL_START_Msk c OR
                (CTL (snd w) AND (KS_CTL_SILENT_Msk c OR KS_CTL_SCMB_Msk c))"
      by blast
    have m8: "min 8 n = 8" using True by simp
    have copied: "\<forall>j < n. buf' ! (off + j) = hw_key s (length (ctl_log s) + 1 + j div 8) (j mod 8)"
    proof (intro allI impI)
      fix j assume jn: "j < n"
      show "buf' ! (off + j) = hw_key s (length (ctl_log s) + 1 + j div 8) (j mod 8)"
      proof (cases "j < 8")
        case True
        then have "buf' ! (off + j) = buf1 ! (off + j)" using frm by simp
        also have "\<dots> = hw_key s (length (ctl_log s) + 1) j" using key1 True m8 by simp
        finally show ?thesis using True by simp
      next
        case False
        define j' where "j' = j - 8"
        have j: "j = 8 + j'" "j' < n - 8" using False jn by (simp_all add: j'_def)
        have "buf' ! (off + 8 + j') = hw_key s (length (ctl_log s) + 1 + 1 + j' div 8) (j' mod 8)"
          using cp j(2) by (simp add: base)
        moreover have "j div 8 = 1 + j' div 8" "j mod 8 = j' mod 8" using j(1) by simp_all
        ultimately show ?thesis using j(1) by (simp add: add.assoc)
      qed
    qed
    have frame: "\<forall>j. j < off \<or> off + n \<le> j \<longrightarrow> buf' ! j = au32Key ! j"
    proof (intro allI impI)
      fix j assume "j < off \<or> off + n \<le> j"
      then have "buf' ! j = buf1 ! j" "buf1 ! j = au32Key ! j"
        using frm b1(4) True by (auto simp: m8)
      then show "buf' ! j = au32Key ! j" by simp
    qed
    have w0: "ws \<noteq> []" using ws(2) True by auto
    have cont0: "ws ! 0 AND KS_CTL_CONT_Msk c = KS_CTL_CONT_Msk c"
      unfolding ws(4) by (simp add: or.assoc or_and_self)
    have "ctl_log s' = ctl_log s @ (v # ws)" using ws(1) base by simp
    moreover have "length (v # ws) = (n + 7) div 8" using ws(2) True by simp
    moreover have "(v # ws) ! 0 = u32Cont OR KS_OP_READ c OR KS_CTL_START_Msk c OR
                (CTL s AND (KS_CTL_SILENT_Msk c OR KS_CTL_SCMB_Msk c))"
      using v_eq by simp
    moreover have "\<forall>k. 0 < k \<and> k < length (v # ws) \<longrightarrow>
        (v # ws) ! k AND KS_CTL_CONT_Msk c = KS_CTL_CONT_Msk c"
    proof (intro allI impI)
      fix k assume k: "0 < k \<and> k < length (v # ws)"
      then obtain k' where k': "k = Suc k'" "k' < length ws" by (cases k) auto
      show "(v # ws) ! k AND KS_CTL_CONT_Msk c = KS_CTL_CONT_Msk c"
        using k' cont0 ws(3) by (cases k') auto
    qed
    ultimately have "\<exists>ws. ctl_log s' = ctl_log s @ ws \<and> length ws = (n + 7) div 8 \<and>
       ws ! 0 = u32Cont OR KS_OP_READ c OR KS_CTL_START_Msk c OR
                (CTL s AND (KS_CTL_SILENT_Msk c OR KS_CTL_SCMB_Msk c)) \<and>
       (\<forall>k. 0 < k \<and> k < length ws \<longrightarrow> ws ! k AND KS_CTL_CONT_Msk c = KS_CTL_CONT_Msk c)"
      by blast
    then show ?thesis using r copied frame by blast
  qed
qed

subsection \<open>The loop of KS_Write\<close>

lemma copy_to_KEY_frame:
  "copy_to_KEY buf off i n s = Some s' \<Longrightarrow> s' = s\<lparr>KEY := KEY s'\<rparr>"
proof (induction n arbitrary: i s)
  case 0
  then show ?case by simp
next
  case (Suc n)
  then have "copy_to_KEY buf off (Suc i) n (wr_KEY i (buf ! nat (off + int i)) s) = Some s'"
    by (simp split: if_splits)
  from Suc.IH [OF this] have "s' = (wr_KEY i (buf ! nat (off + int i)) s)\<lparr>KEY := KEY s'\<rparr>" .
  then show ?case by (simp add: wr_KEY_def)
qed

lemma copy_to_KEY_simps:
  assumes "copy_to_KEY buf off i n s = Some s'"
  shows "sts_cnt s' = sts_cnt s" "hw_sts s' = hw_sts s" "hw_key s' = hw_key s" "hw_meta s' = hw_meta s"
    "CTL s' = CTL s" "METADATA s' = METADATA s" "ctl_log s' = ctl_log s" "sts_log s' = sts_log s"
proof -
  have e: "s' = s\<lparr>KEY := KEY s'\<rparr>" by (rule copy_to_KEY_frame [OF assms])
  show "sts_cnt s' = sts_cnt s" "hw_sts s' = hw_sts s" "hw_key s' = hw_key s" "hw_meta s' = hw_meta s"
    "CTL s' = CTL s" "METADATA s' = METADATA s" "ctl_log s' = ctl_log s" "sts_log s' = sts_log s"
    by (subst e, simp)+
qed

lemma copy_to_KEY_ok:
  assumes "off + i + n \<le> length buf"
  shows "\<exists>s'. copy_to_KEY buf (int off) i n s = Some s'"
  using assms
proof (induction n arbitrary: i s)
  case 0
  then show ?case by simp
next
  case (Suc n)
  have "off + Suc i + n \<le> length buf" using Suc.prems by simp
  from Suc.IH [OF this] show ?case using Suc.prems by simp
qed

lemma KS_Write_loop_frame:
  "KS_Write_loop c u32Cont i32Cnt offset au32Key s = (r, s') \<Longrightarrow>
     hw_sts s' = hw_sts s \<and> hw_key s' = hw_key s \<and> hw_meta s' = hw_meta s \<and>
     METADATA s' = METADATA s \<and>
     (r = Inr () \<or> r = Inl KS_ERR_TIMEOUT \<or> r = Inl KS_UNDEFINED) \<and>
     (\<exists>ws. ctl_log s' = ctl_log s @ ws \<and> 8 * length ws \<le> chunk_bound i32Cnt \<and>
           sts_cnt s \<le> sts_cnt s' \<and>
           sts_cnt s' \<le> sts_cnt s + length ws * (unat (KS_TIMEOUT c - 1) + 1))"
proof (induction c u32Cont i32Cnt offset au32Key s arbitrary: r s' rule: KS_Write_loop.induct)
  case (1 c u32Cont i32Cnt offset au32Key s)
  define cnt where "cnt = (if 8 <s i32Cnt then 8 else i32Cnt)"
  have eq0: "(case copy_to_KEY au32Key (sint offset) 0 (nat (sint cnt)) s of
        None \<Rightarrow> (Inl KS_UNDEFINED, s)
      | Some s1 \<Rightarrow>
          let s2 = wr_STS (KS_STS_EIF_Msk c OR KS_STS_IF_Msk c) s1;
              s3 = wr_CTL (u32Cont OR KS_OP_WRITE c OR KS_CTL_START_Msk c OR
                           (CTL s2 AND (KS_CTL_SILENT_Msk c OR KS_CTL_SCMB_Msk c))) s2;
              r = wait_busy c s3
          in if \<not> fst r then (Inl KS_ERR_TIMEOUT, snd r)
             else if 0 <s i32Cnt - 8
             then KS_Write_loop c (KS_CTL_CONT_Msk c) (i32Cnt - 8) (offset + 8) au32Key (snd r)
             else (Inr (), snd r)) = (r, s')"
    using "1.prems" unfolding KS_Write_loop.simps [of c u32Cont i32Cnt offset au32Key s]
    unfolding Let_def cnt_def .
  show ?case
  proof (cases "copy_to_KEY au32Key (sint offset) 0 (nat (sint cnt)) s")
    case None
    then have "r = Inl KS_UNDEFINED" "s' = s" using eq0 by auto
    then show ?thesis by simp
  next
    case (Some s1)
    note cp = copy_to_KEY_simps [OF Some]
    define s2 where "s2 = wr_STS (KS_STS_EIF_Msk c OR KS_STS_IF_Msk c) s1"
    define v where "v = u32Cont OR KS_OP_WRITE c OR KS_CTL_START_Msk c OR
                           (CTL s2 AND (KS_CTL_SILENT_Msk c OR KS_CTL_SCMB_Msk c))"
    define s3 where "s3 = wr_CTL v s2"
    define w where "w = wait_busy c s3"
    note fr = wait_busy_frame [where c = c and s = s3, folded w_def]
    have base: "hw_sts (snd w) = hw_sts s" "hw_key (snd w) = hw_key s" "hw_meta (snd w) = hw_meta s"
      "METADATA (snd w) = METADATA s" "ctl_log (snd w) = ctl_log s @ [v]"
      "sts_cnt s < sts_cnt (snd w)" "sts_cnt (snd w) \<le> sts_cnt s + (unat (KS_TIMEOUT c - 1) + 1)"
      using fr cp by (simp_all add: s3_def s2_def)
    have eq: "(if \<not> fst w then (Inl KS_ERR_TIMEOUT, snd w)
             else if 0 <s i32Cnt - 8
             then KS_Write_loop c (KS_CTL_CONT_Msk c) (i32Cnt - 8) (offset + 8) au32Key (snd w)
             else (Inr (), snd w)) = (r, s')"
      using eq0 unfolding Some option.case Let_def w_def s3_def v_def s2_def .
    have one: "\<exists>ws. ctl_log (snd w) = ctl_log s @ ws \<and> 8 * length ws \<le> chunk_bound i32Cnt \<and>
           sts_cnt s \<le> sts_cnt (snd w) \<and>
           sts_cnt (snd w) \<le> sts_cnt s + length ws * (unat (KS_TIMEOUT c - 1) + 1)"
      using base chunk_bound_ge8 [of i32Cnt] by (intro exI [of _ "[v]"]) simp
    show ?thesis
    proof (cases "fst w")
      case False
      then have "r = Inl KS_ERR_TIMEOUT" "s' = snd w" using eq by auto
      then show ?thesis using base one by simp
    next
      case True
      show ?thesis
      proof (cases "0 <s i32Cnt - 8")
        case False
        then have "r = Inr ()" "s' = snd w" using eq True by auto
        then show ?thesis using base one by simp
      next
        case rec: True
        have call: "KS_Write_loop c (KS_CTL_CONT_Msk c) (i32Cnt - 8) (offset + 8) au32Key (snd w) = (r, s')"
          using eq True rec by simp
        have t: "\<not> \<not> fst w" using True by simp
        note ih = "1.IH" [OF cnt_def Some s2_def s3_def [unfolded v_def] w_def t rec call]
        then obtain ws where ws: "ctl_log s' = ctl_log (snd w) @ ws"
          "8 * length ws \<le> chunk_bound (i32Cnt - 8)" "sts_cnt (snd w) \<le> sts_cnt s'"
          "sts_cnt s' \<le> sts_cnt (snd w) + length ws * (unat (KS_TIMEOUT c - 1) + 1)"
          by blast
        have "ctl_log s' = ctl_log s @ (v # ws)" using ws(1) base by simp
        moreover have "8 * length (v # ws) \<le> chunk_bound i32Cnt"
          using ws(2) chunk_bound_step [OF rec] by simp
        moreover have "sts_cnt s \<le> sts_cnt s'" using ws(3) base by simp
        moreover have "sts_cnt s' \<le> sts_cnt s + length (v # ws) * (unat (KS_TIMEOUT c - 1) + 1)"
          using ws(4) base by simp
        ultimately have "\<exists>ws. ctl_log s' = ctl_log s @ ws \<and> 8 * length ws \<le> chunk_bound i32Cnt \<and>
           sts_cnt s \<le> sts_cnt s' \<and>
           sts_cnt s' \<le> sts_cnt s + length ws * (unat (KS_TIMEOUT c - 1) + 1)"
          by (intro exI [of _ "v # ws"]) simp
        then show ?thesis using ih base by simp
      qed
    qed
  qed
qed

subsection \<open>The single-command functions\<close>

lemma cmd_start_simps [simp]:
  "sts_cnt (cmd_start meta clr ctl s) = Suc (sts_cnt s)" "hw_sts (cmd_start meta clr ctl s) = hw_sts s"
  "hw_key (cmd_start meta clr ctl s) = hw_key s" "hw_meta (cmd_start meta clr ctl s) = hw_meta s"
  "CTL (cmd_start meta clr ctl s) = ctl" "METADATA (cmd_start meta clr ctl s) = meta"
  "KEY (cmd_start meta clr ctl s) = KEY s" "ctl_log (cmd_start meta clr ctl s) = ctl_log s @ [ctl]"
  "sts_log (cmd_start meta clr ctl s) = sts_log s @ [clr]"
  by (simp_all add: cmd_start_def)

lemma KS_EraseKey_shape:
  "KS_EraseKey c i32KeyIdx s =
     (if is_busy c (rd_STS s) then (Inl KS_ERR_BUSY, tick s)
      else cmd_tail c (\<lambda>s. ((), s))
             (cmd_start (push_bit (KS_METADATA_DST_Pos c) (KS_MEM_code c KS_SRAM) OR KS_TOMETAKEY c i32KeyIdx)
                (KS_STS_EIF_Msk c OR KS_STS_IF_Msk c)
                (KS_OP_ERASE c OR KS_CTL_START_Msk c OR (CTL s AND (KS_CTL_SILENT_Msk c OR KS_CTL_SCMB_Msk c))) s))"
  by (simp add: KS_EraseKey_def cmd_tail_def cmd_start_def is_busy_def Let_def split_def)

lemma KS_EraseOTPKey_shape:
  "KS_EraseOTPKey c i32KeyIdx s =
     (if is_busy c (rd_STS s) then (Inl KS_ERR_BUSY, tick s)
      else cmd_tail c (\<lambda>s. ((), s))
             (cmd_start (push_bit (KS_METADATA_DST_Pos c) (KS_MEM_code c KS_OTP) OR KS_TOMETAKEY c i32KeyIdx)
                (KS_STS_EIF_Msk c OR KS_STS_IF_Msk c)
                (KS_OP_ERASE c OR KS_CTL_START_Msk c) s))"
  by (simp add: KS_EraseOTPKey_def cmd_tail_def cmd_start_def is_busy_def Let_def split_def)

lemma KS_LockOTPKey_shape:
  "KS_LockOTPKey c i32KeyIdx s =
     (if is_busy c (rd_STS s) then (Inl KS_ERR_BUSY, tick s)
      else cmd_tail c (\<lambda>s. ((), s))
             (cmd_start (push_bit (KS_METADATA_DST_Pos c) (KS_MEM_code c KS_OTP) OR KS_TOMETAKEY c i32KeyIdx)
                (KS_STS_EIF_Msk c OR KS_STS_IF_Msk c)
                (KS_OP_LOCK c OR KS_CTL_START_Msk c) s))"
  by (simp add: KS_LockOTPKey_def cmd_tail_def cmd_start_def is_busy_def Let_def split_def)

lemma KS_EraseAll_shape:
  "KS_EraseAll c eMemType s =
     (if is_busy c (rd_STS s) then (Inl KS_ERR_BUSY, tick s)
      else cmd_tail c (\<lambda>s. ((), s))
             (cmd_start (push_bit (KS_METADATA_DST_Pos c) (KS_MEM_code c eMemType))
                (KS_STS_EIF_Msk c OR KS_STS_IF_Msk c)
                (KS_OP_ERASE_ALL c OR KS_CTL_START_Msk c OR (CTL s AND (KS_CTL_SILENT_Msk c OR KS_CTL_SCMB_Msk c))) s))"
  by (simp add: KS_EraseAll_def cmd_tail_def cmd_start_def is_busy_def Let_def split_def)

lemma KS_RevokeKey_shape:
  "KS_RevokeKey c eMemType i32KeyIdx s =
     (if is_busy c (rd_STS s) then (Inl KS_ERR_BUSY, tick s)
      else cmd_tail c (\<lambda>s. ((), s))
             (cmd_start (push_bit (KS_METADATA_DST_Pos c) (KS_MEM_code c eMemType) OR KS_TOMETAKEY c i32KeyIdx)
                (KS_STS_EIF_Msk c OR KS_STS_IF_Msk c)
                (KS_OP_REVOKE c OR KS_CTL_START_Msk c OR (CTL s AND (KS_CTL_SILENT_Msk c OR KS_CTL_SCMB_Msk c))) s))"
  by (simp add: KS_RevokeKey_def cmd_tail_def cmd_start_def is_busy_def Let_def split_def)

lemma KS_ToggleSRAM_shape:
  "KS_ToggleSRAM c s =
     (if is_busy c (rd_STS s) then (Inl KS_ERR_BUSY, tick s)
      else cmd_tail c (\<lambda>s. (0 < (rd_STS s AND KS_STS_RAMINV_Msk c), tick s))
             (cmd_start (push_bit (KS_METADATA_DST_Pos c) (KS_MEM_code c KS_SRAM))
                (KS_STS_EIF_Msk c OR KS_STS_IF_Msk c)
                (KS_OP_REMAN c OR KS_CTL_START_Msk c OR (CTL s AND (KS_CTL_SILENT_Msk c OR KS_CTL_SCMB_Msk c))) s))"
  by (simp add: KS_ToggleSRAM_def cmd_tail_def cmd_start_def is_busy_def Let_def split_def)

lemmas single_shapes = KS_EraseKey_shape KS_EraseOTPKey_shape KS_LockOTPKey_shape KS_EraseAll_shape
  KS_RevokeKey_shape KS_ToggleSRAM_shape

lemma wait_busy_stuck:
  assumes "\<forall>j \<le> unat (KS_TIMEOUT c - 1). is_busy c (hw_sts s (sts_cnt s + j))"
  shows "fst (wait_busy c s) = False"
  unfolding wait_busy_def using wait_while_timeout [of "KS_TIMEOUT c" "is_busy c" s] assms by simp

lemma wait_busy_done:
  assumes "j \<le> unat (KS_TIMEOUT c - 1)" "\<forall>i < j. is_busy c (hw_sts s (sts_cnt s + i))"
    "\<not> is_busy c (hw_sts s (sts_cnt s + j))"
  shows "wait_busy c s = (True, s\<lparr>sts_cnt := sts_cnt s + j + 1\<rparr>)"
  unfolding wait_busy_def by (rule wait_while_exit [OF assms])

lemma cmd_tail_stuck:
  assumes "\<forall>j \<le> unat (KS_TIMEOUT c - 1). is_busy c (hw_sts s (sts_cnt s + j))"
  shows "fst (cmd_tail c ret s) = Inl KS_ERR_TIMEOUT"
  using wait_busy_stuck [OF assms] by (simp add: cmd_tail_def split_def Let_def)

lemma cmd_tail_fail:
  assumes "j \<le> unat (KS_TIMEOUT c - 1)" "\<forall>i < j. is_busy c (hw_sts s (sts_cnt s + i))"
    "\<not> is_busy c (hw_sts s (sts_cnt s + j))"
    "hw_sts s (sts_cnt s + j + 1) AND KS_STS_EIF_Msk c \<noteq> 0"
  shows "fst (cmd_tail c ret s) = Inl KS_ERR_FAIL"
  using assms(4) by (simp add: cmd_tail_def wait_busy_done [OF assms(1-3)] rd_STS_def)

lemma cmd_tail_cost:
  assumes "\<And>s. sts_cnt (snd (ret s)) \<le> sts_cnt s + e"
  shows "sts_cnt (snd (cmd_tail c ret s)) \<le> sts_cnt s + unat (KS_TIMEOUT c - 1) + 2 + e"
proof -
  note fr = wait_busy_frame(10) [of c s]
  have "sts_cnt (snd (ret (tick (snd (wait_busy c s))))) \<le> sts_cnt (tick (snd (wait_busy c s))) + e"
    by (rule assms)
  then show ?thesis
    using fr by (simp add: cmd_tail_def split_def Let_def)
qed

lemma wait_while_frame:
  "hw_sts (snd (wait_while cond t s)) = hw_sts s" "hw_key (snd (wait_while cond t s)) = hw_key s"
  "hw_meta (snd (wait_while cond t s)) = hw_meta s" "CTL (snd (wait_while cond t s)) = CTL s"
  "METADATA (snd (wait_while cond t s)) = METADATA s" "KEY (snd (wait_while cond t s)) = KEY s"
  "ctl_log (snd (wait_while cond t s)) = ctl_log s" "sts_log (snd (wait_while cond t s)) = sts_log s"
  "sts_cnt s < sts_cnt (snd (wait_while cond t s))"
  "sts_cnt (snd (wait_while cond t s)) \<le> sts_cnt s + unat (t - 1) + 1"
proof -
  obtain b s' where r: "wait_while cond t s = (b, s')" by (cases "wait_while cond t s")
  from wait_while_cases [OF r] obtain k where "k \<le> unat (t - 1)"
    "s' = s\<lparr>sts_cnt := sts_cnt s + k + 1\<rparr>" by blast
  then show "hw_sts (snd (wait_while cond t s)) = hw_sts s" "hw_key (snd (wait_while cond t s)) = hw_key s"
  "hw_meta (snd (wait_while cond t s)) = hw_meta s" "CTL (snd (wait_while cond t s)) = CTL s"
  "METADATA (snd (wait_while cond t s)) = METADATA s" "KEY (snd (wait_while cond t s)) = KEY s"
  "ctl_log (snd (wait_while cond t s)) = ctl_log s" "sts_log (snd (wait_while cond t s)) = sts_log s"
  "sts_cnt s < sts_cnt (snd (wait_while cond t s))"
  "sts_cnt (snd (wait_while cond t s)) \<le> sts_cnt s + unat (t - 1) + 1"
    using r by simp_all
qed

lemma KS_GetKeyWordCnt_small:
  assumes "KS_GetKeyWordCnt c m = Some n"
  shows "unat n \<le> 128" and "sint n = int (unat n)" and "(8 <s n) = (8 < unat n)"
proof -
  have i: "size_idx c m \<le> 20" and n: "n = of_nat (au8CntTbl ! size_idx c m)"
    using assms by (auto simp: KS_GetKeyWordCnt_def au8CntTbl_def split: if_splits)
  show le: "unat n \<le> 128"
    unfolding n using idx_cases21 [OF i] by (auto simp: au8CntTbl_def)
  then have "unat n < 2 ^ 31" by simp
  then show s: "sint n = int (unat n)" by (rule sint_of_unat)
  have "(8 < int (unat n)) = (8 < unat n)" by presburger
  then show "(8 <s n) = (8 < unat n)"
    by (simp only: word_sless_alt s) simp
qed

lemma KS_WriteOTP_shape:
  "KS_WriteOTP c i32KeyIdx u32Meta au32Key s =
     (if is_busy c (rd_STS s) then (Inl KS_ERR_BUSY, tick s)
      else
        let s1 = wr_METADATA (push_bit (KS_METADATA_DST_Pos c) (KS_MEM_code c KS_OTP) OR u32Meta OR
                              KS_TOMETAKEY c i32KeyIdx) (tick s)
        in if unat (drop_bit (KS_METADATA_SIZE_Pos c) (KS_META_256 c)) < size_idx c u32Meta
           then (Inl KS_ERR_PARAMETER, s1)
           else if \<not> size_idx c u32Meta < length au8CntTbl_OTP then (Inl KS_UNDEFINED, s1)
           else
             case copy_to_KEY au32Key 0 0 (au8CntTbl_OTP ! size_idx c u32Meta) s1 of
               None \<Rightarrow> (Inl KS_UNDEFINED, s1)
             | Some s2 \<Rightarrow>
                 cmd_tail c (\<lambda>s. (i32KeyIdx, s))
                   (wr_CTL (KS_OP_WRITE c OR KS_CTL_START_Msk c OR
                            (CTL s2 AND (KS_CTL_SILENT_Msk c OR KS_CTL_SCMB_Msk c)))
                      (wr_STS (KS_STS_EIF_Msk c OR KS_STS_IF_Msk c) s2)))"
  by (simp add: KS_WriteOTP_def cmd_tail_def is_busy_def Let_def split_def split: option.splits)

lemma KS_Read_loop_stuck:
  assumes "\<forall>j \<le> unat (KS_TIMEOUT c - 1). is_busy c (hw_sts s (sts_cnt s + j))"
  shows "fst (KS_Read_loop c u32Cont i32Cnt offset au32Key s) = Inl KS_ERR_TIMEOUT"
proof -
  have "fst (wait_busy c (wr_CTL (u32Cont OR KS_OP_READ c OR KS_CTL_START_Msk c OR
           (CTL (wr_STS (KS_STS_EIF_Msk c OR KS_STS_IF_Msk c) s) AND
             (KS_CTL_SILENT_Msk c OR KS_CTL_SCMB_Msk c)))
           (wr_STS (KS_STS_EIF_Msk c OR KS_STS_IF_Msk c) s))) = False"
    by (rule wait_busy_stuck) (use assms in simp)
  then show ?thesis
    by (subst KS_Read_loop.simps) (simp add: Let_def)
qed

lemma KS_Write_loop_stuck:
  assumes "copy_to_KEY au32Key (sint offset) 0 (nat (sint (if 8 <s i32Cnt then 8 else i32Cnt))) s = Some s1"
    "\<forall>j \<le> unat (KS_TIMEOUT c - 1). is_busy c (hw_sts s (sts_cnt s + j))"
  shows "fst (KS_Write_loop c u32Cont i32Cnt offset au32Key s) = Inl KS_ERR_TIMEOUT"
proof -
  note cp = copy_to_KEY_simps [OF assms(1)]
  have "fst (wait_busy c (wr_CTL (u32Cont OR KS_OP_WRITE c OR KS_CTL_START_Msk c OR
           (CTL (wr_STS (KS_STS_EIF_Msk c OR KS_STS_IF_Msk c) s1) AND
             (KS_CTL_SILENT_Msk c OR KS_CTL_SCMB_Msk c)))
           (wr_STS (KS_STS_EIF_Msk c OR KS_STS_IF_Msk c) s1))) = False"
    by (rule wait_busy_stuck) (use assms(2) cp in simp)
  then show ?thesis
    using assms(1) by (subst KS_Write_loop.simps) (simp add: Let_def)
qed

lemma KS_Open_stuck:
  assumes "\<forall>j \<le> unat (KS_TIMEOUT c - 1). is_busy c (hw_sts s (sts_cnt s + 1 + j))"
  shows "fst (KS_Open c s) = Inl KS_ERR_TIMEOUT"
proof -
  have "fst (wait_busy c (tick s)) = False"
    by (rule wait_busy_stuck) (use assms in simp)
  then show ?thesis
    by (simp add: KS_Open_def KS_Open_ready_def Let_def split_def)
qed

lemma KS_Read_stuck:
  assumes "\<not> is_busy c (rd_STS s)"
    "\<forall>j \<le> unat (KS_TIMEOUT c - 1). is_busy c (hw_sts s (sts_cnt s + 1 + j))"
  shows "fst (KS_Read c eMemType i32KeyIdx au32Key u32WordCnt s) = Inl KS_ERR_TIMEOUT"
proof -
  let ?s1 = "wr_METADATA (push_bit (KS_METADATA_DST_Pos c) (KS_MEM_code c eMemType) OR
                              KS_TOMETAKEY c i32KeyIdx) (tick s)"
  have "fst (KS_Read_loop c 0 u32WordCnt 0 au32Key ?s1) = Inl KS_ERR_TIMEOUT"
    by (rule KS_Read_loop_stuck) (use assms(2) in simp)
  then obtain b s2 where "KS_Read_loop c 0 u32WordCnt 0 au32Key ?s1 = (Inl KS_ERR_TIMEOUT, b, s2)"
    by (cases "KS_Read_loop c 0 u32WordCnt 0 au32Key ?s1") auto
  then show ?thesis
    using assms(1) by (simp add: KS_Read_def is_busy_def Let_def)
qed

lemma KS_Write_stuck:
  assumes "\<not> is_busy c (rd_STS s)"
    "\<forall>j \<le> unat (KS_TIMEOUT c - 1). is_busy c (hw_sts s (sts_cnt s + 1 + j))"
    "KS_GetKeyWordCnt c u32Meta = Some n" "n \<noteq> 0" "eMemType = KS_OTP \<longrightarrow> unat n \<le> 8"
    "unat n \<le> length au32Key"
  shows "fst (KS_Write c eMemType u32Meta au32Key s) = Inl KS_ERR_TIMEOUT"
proof -
  let ?s1 = "wr_METADATA (push_bit (KS_METADATA_DST_Pos c) (KS_MEM_code c eMemType) OR u32Meta) (tick s)"
  note sm = KS_GetKeyWordCnt_small [OF assms(3)]
  have "nat (sint (if 8 <s n then 8 else n)) \<le> unat n"
    using sm by auto
  then have "0 + 0 + nat (sint (if 8 <s n then 8 else n)) \<le> length au32Key"
    using assms(6) by simp
  from copy_to_KEY_ok [OF this, of ?s1] obtain s2 where
    "copy_to_KEY au32Key (sint (0 :: i32)) 0 (nat (sint (if 8 <s n then 8 else n))) ?s1 = Some s2"
    by auto
  then have "fst (KS_Write_loop c 0 n 0 au32Key ?s1) = Inl KS_ERR_TIMEOUT"
    by (rule KS_Write_loop_stuck) (use assms(2) in simp)
  then obtain s3 where "KS_Write_loop c 0 n 0 au32Key ?s1 = (Inl KS_ERR_TIMEOUT, s3)"
    by (cases "KS_Write_loop c 0 n 0 au32Key ?s1") auto
  then show ?thesis
    using assms(1,3,4,5) sm(3)
    by (auto simp add: KS_Write_def is_busy_def Let_def)
qed

lemma KS_WriteOTP_stuck:
  assumes "\<not> is_busy c (rd_STS s)"
    "\<forall>j \<le> unat (KS_TIMEOUT c - 1). is_busy c (hw_sts s (sts_cnt s + 1 + j))"
    "size_idx c u32Meta \<le> unat (drop_bit (KS_METADATA_SIZE_Pos c) (KS_META_256 c))"
    "size_idx c u32Meta < 7" "au8CntTbl_OTP ! size_idx c u32Meta \<le> length au32Key"
  shows "fst (KS_WriteOTP c i32KeyIdx u32Meta au32Key s) = Inl KS_ERR_TIMEOUT"
proof -
  let ?s1 = "wr_METADATA (push_bit (KS_METADATA_DST_Pos c) (KS_MEM_code c KS_OTP) OR u32Meta OR
                              KS_TOMETAKEY c i32KeyIdx) (tick s)"
  have "0 + 0 + au8CntTbl_OTP ! size_idx c u32Meta \<le> length au32Key"
    using assms(5) by simp
  from copy_to_KEY_ok [OF this, of ?s1] obtain s2 where
    cp: "copy_to_KEY au32Key 0 0 (au8CntTbl_OTP ! size_idx c u32Meta) ?s1 = Some s2"
    by auto
  note fr = copy_to_KEY_simps [OF cp]
  have "fst (cmd_tail c (\<lambda>s. (i32KeyIdx, s))
                   (wr_CTL (KS_OP_WRITE c OR KS_CTL_START_Msk c OR
                            (CTL s2 AND (KS_CTL_SILENT_Msk c OR KS_CTL_SCMB_Msk c)))
                      (wr_STS (KS_STS_EIF_Msk c OR KS_STS_IF_Msk c) s2))) = Inl KS_ERR_TIMEOUT"
    by (rule cmd_tail_stuck) (use assms(2) fr in simp)
  then show ?thesis
    using assms(1,3,4) cp by (simp add: KS_WriteOTP_shape Let_def au8CntTbl_OTP_def)
qed

lemma KS_Read_fail:
  assumes "KS_Read c eMemType i32KeyIdx au32Key u32WordCnt s = (r, buf', s')"
    "r \<noteq> Inl KS_ERR_BUSY" "r \<noteq> Inl KS_ERR_TIMEOUT" "r \<noteq> Inl KS_UNDEFINED"
  shows "(r = Inl KS_ERR_FAIL) = (hw_sts s (sts_cnt s' - 1) AND KS_STS_EIF_Msk c \<noteq> 0)"
proof -
  let ?s1 = "wr_METADATA (push_bit (KS_METADATA_DST_Pos c) (KS_MEM_code c eMemType) OR
                              KS_TOMETAKEY c i32KeyIdx) (tick s)"
  have nb: "rd_STS s AND KS_STS_BUSY_Msk c = 0"
    using assms(1,2) by (auto simp: KS_Read_def split: if_splits)
  obtain rl b s2 where l: "KS_Read_loop c 0 u32WordCnt 0 au32Key ?s1 = (rl, b, s2)"
    by (cases "KS_Read_loop c 0 u32WordCnt 0 au32Key ?s1") auto
  note fr = KS_Read_loop_frame [OF l]
  have whole: "KS_Read c eMemType i32KeyIdx au32Key u32WordCnt s =
      (case rl of Inl e \<Rightarrow> (Inl e, b, s2)
           | Inr u \<Rightarrow> if rd_STS s2 AND KS_STS_EIF_Msk c \<noteq> 0 then (Inl KS_ERR_FAIL, b, tick s2)
               else (Inr (), b, tick s2))"
    using nb l by (cases rl) (simp_all add: KS_Read_def Let_def)
  have "rl = Inr ()"
    using fr whole assms(1,3,4) by auto
  then have "(if rd_STS s2 AND KS_STS_EIF_Msk c \<noteq> 0 then (Inl KS_ERR_FAIL, b, tick s2)
               else (Inr (), b, tick s2)) = (r, buf', s')"
    using whole assms(1) by simp
  moreover have "hw_sts s2 = hw_sts s" using fr by simp
  ultimately show ?thesis
    by (auto simp: rd_STS_def split: if_splits)
qed

lemma KS_Write_fail:
  assumes "KS_Write c eMemType u32Meta au32Key s = (r, s')"
    "r \<noteq> Inl KS_ERR_BUSY" "r \<noteq> Inl KS_ERR_TIMEOUT" "r \<noteq> Inl KS_ERR_PARAMETER" "r \<noteq> Inl KS_UNDEFINED"
  shows "(r = Inl KS_ERR_FAIL) = (hw_sts s (sts_cnt s' - 1) AND KS_STS_EIF_Msk c \<noteq> 0)"
proof -
  let ?s1 = "wr_METADATA (push_bit (KS_METADATA_DST_Pos c) (KS_MEM_code c eMemType) OR u32Meta) (tick s)"
  have nb: "rd_STS s AND KS_STS_BUSY_Msk c = 0"
    using assms(1,2) by (auto simp: KS_Write_def split: if_splits)
  obtain n where n: "KS_GetKeyWordCnt c u32Meta = Some n"
    using assms(1,5) nb by (cases "KS_GetKeyWordCnt c u32Meta") (auto simp: KS_Write_def Let_def)
  have ok: "n \<noteq> 0" "\<not> (eMemType = KS_OTP \<and> 8 <s n)"
    using assms(1,4) nb n by (auto simp: KS_Write_def Let_def split: if_splits)
  obtain rl s2 where l: "KS_Write_loop c 0 n 0 au32Key ?s1 = (rl, s2)"
    by (cases "KS_Write_loop c 0 n 0 au32Key ?s1") auto
  note fr = KS_Write_loop_frame [OF l]
  have whole: "KS_Write c eMemType u32Meta au32Key s =
      (case rl of Inl e \<Rightarrow> (Inl e, s2)
           | Inr u \<Rightarrow> if rd_STS s2 AND KS_STS_EIF_Msk c \<noteq> 0 then (Inl KS_ERR_FAIL, tick s2)
               else (Inr (KS_TOKEYIDX c (rd_METADATA (tick s2))), tick s2))"
    using nb n ok l by (cases rl) (auto simp add: KS_Write_def Let_def)
  have "rl = Inr ()"
    using fr whole assms(1,3,5) by auto
  then have "(if rd_STS s2 AND KS_STS_EIF_Msk c \<noteq> 0 then (Inl KS_ERR_FAIL, tick s2)
               else (Inr (KS_TOKEYIDX c (rd_METADATA (tick s2))), tick s2)) = (r, s')"
    using whole assms(1) by simp
  moreover have "hw_sts s2 = hw_sts s" using fr by simp
  ultimately show ?thesis
    by (auto simp: rd_STS_def split: if_splits)
qed

lemma KS_WriteOTP_fail:
  assumes "\<not> is_busy c (rd_STS s)"
    "j \<le> unat (KS_TIMEOUT c - 1)" "\<forall>i < j. is_busy c (hw_sts s (sts_cnt s + 1 + i))"
    "\<not> is_busy c (hw_sts s (sts_cnt s + 1 + j))"
    "hw_sts s (sts_cnt s + 2 + j) AND KS_STS_EIF_Msk c \<noteq> 0"
    "size_idx c u32Meta \<le> unat (drop_bit (KS_METADATA_SIZE_Pos c) (KS_META_256 c))"
    "size_idx c u32Meta < 7" "au8CntTbl_OTP ! size_idx c u32Meta \<le> length au32Key"
  shows "fst (KS_WriteOTP c i32KeyIdx u32Meta au32Key s) = Inl KS_ERR_FAIL"
proof -
  let ?s1 = "wr_METADATA (push_bit (KS_METADATA_DST_Pos c) (KS_MEM_code c KS_OTP) OR u32Meta OR
                              KS_TOMETAKEY c i32KeyIdx) (tick s)"
  have "0 + 0 + au8CntTbl_OTP ! size_idx c u32Meta \<le> length au32Key"
    using assms(8) by simp
  from copy_to_KEY_ok [OF this, of ?s1] obtain s2 where
    cp: "copy_to_KEY au32Key 0 0 (au8CntTbl_OTP ! size_idx c u32Meta) ?s1 = Some s2"
    by auto
  note fr = copy_to_KEY_simps [OF cp]
  have "fst (cmd_tail c (\<lambda>s. (i32KeyIdx, s))
                   (wr_CTL (KS_OP_WRITE c OR KS_CTL_START_Msk c OR
                            (CTL s2 AND (KS_CTL_SILENT_Msk c OR KS_CTL_SCMB_Msk c)))
                      (wr_STS (KS_STS_EIF_Msk c OR KS_STS_IF_Msk c) s2))) = Inl KS_ERR_FAIL"
    by (rule cmd_tail_fail [OF assms(2)]) (use assms(3,4,5) fr in simp_all)
  then show ?thesis
    using assms(1,6,7) cp by (simp add: KS_WriteOTP_shape Let_def au8CntTbl_OTP_def)
qed

lemma budget0: "unat (KS_TIMEOUT ks_layout0 - 1) = 2"
  by (simp add: ks_layout0_def)

lemma le2_cases: "(j :: nat) \<le> 2 \<Longrightarrow> j = 0 \<or> j = 1 \<or> j = 2"
  by arith

subsection \<open>The number of status reads\<close>

lemma budget_unat:
  fixes t :: u32
  assumes "t \<noteq> 0"
  shows "unat (t - 1) + 1 = unat t"
  using word_pred_unat [OF assms] by simp

lemma chunk_bound_le: "chunk_bound x \<le> 2 ^ 31 + 14"
proof (cases "0 < sint x")
  case True
  have "sint x < 2 ^ 31" using sint_lt [of x] by simp
  then have "nat (sint x) < 2 ^ 31" using True by (simp add: nat_less_iff)
  then show ?thesis using True by (simp add: chunk_bound_def)
next
  case False
  then show ?thesis by (simp add: chunk_bound_def)
qed

lemma KS_Open_cost:
  "sts_cnt (snd (KS_Open c s)) \<le> sts_cnt s + 1 + 3 * (unat (KS_TIMEOUT c - 1) + 1)"
proof -
  define B where "B = unat (KS_TIMEOUT c - 1) + 1"
  have ready: "sts_cnt (snd (KS_Open_ready c s')) \<le> sts_cnt s' + B" for s'
    using wait_busy_frame(10) [of c s'] by (simp add: KS_Open_ready_def split_def Let_def B_def)
  show ?thesis
  proof (cases "rd_STS s AND KS_STS_INITDONE_Msk c = 0")
    case False
    then show ?thesis using ready [of "tick s"] by (simp add: KS_Open_def B_def)
  next
    case True
    define s1 where "s1 = snd (wait_busy c (tick s))"
    define s2 where "s2 = wr_CTL (KS_CTL_INIT_Msk c OR KS_CTL_START_Msk c) s1"
    define s3 where "s3 = snd (wait_while (\<lambda>sts. sts AND KS_STS_INITDONE_Msk c = 0) (KS_TIMEOUT c) s2)"
    have 1: "sts_cnt s1 \<le> sts_cnt s + 1 + B"
      using wait_busy_frame(10) [of c "tick s"] by (simp add: s1_def B_def)
    have 2: "sts_cnt s3 \<le> sts_cnt s1 + B"
      using wait_while_frame(10) [of "\<lambda>sts. sts AND KS_STS_INITDONE_Msk c = 0" "KS_TIMEOUT c" s2]
      by (simp add: s3_def s2_def B_def)
    have 3: "sts_cnt (snd (KS_Open_ready c s3)) \<le> sts_cnt s3 + B" by (rule ready)
    have "snd (KS_Open c s) = s1 \<or> snd (KS_Open c s) = s3 \<or> snd (KS_Open c s) = snd (KS_Open_ready c s3)"
      using True by (simp add: KS_Open_def split_def Let_def s1_def s2_def s3_def)
    then show ?thesis
      using 1 2 3 unfolding B_def [symmetric] by auto
  qed
qed

lemma KS_Read_cost:
  "sts_cnt (snd (snd (KS_Read c eMemType i32KeyIdx au32Key u32WordCnt s)))
     \<le> sts_cnt s + 2 + (2 ^ 28 + 1) * (unat (KS_TIMEOUT c - 1) + 1)"
proof (cases "rd_STS s AND KS_STS_BUSY_Msk c \<noteq> 0")
  case True
  then show ?thesis by (simp add: KS_Read_def)
next
  case False
  define B where "B = unat (KS_TIMEOUT c - 1) + 1"
  let ?s1 = "wr_METADATA (push_bit (KS_METADATA_DST_Pos c) (KS_MEM_code c eMemType) OR
                              KS_TOMETAKEY c i32KeyIdx) (tick s)"
  obtain rl b s2 where l: "KS_Read_loop c 0 u32WordCnt 0 au32Key ?s1 = (rl, b, s2)"
    by (cases "KS_Read_loop c 0 u32WordCnt 0 au32Key ?s1") auto
  have "\<exists>ws :: u32 list. 8 * length ws \<le> chunk_bound u32WordCnt \<and> sts_cnt s2 \<le> sts_cnt ?s1 + length ws * B"
    using KS_Read_loop_frame [OF l] by (auto simp: B_def)
  then obtain ws :: "u32 list" where
    ws: "8 * length ws \<le> chunk_bound u32WordCnt" "sts_cnt s2 \<le> sts_cnt ?s1 + length ws * B"
    by blast
  have "8 * length ws \<le> 2 ^ 31 + 14" using ws(1) chunk_bound_le [of u32WordCnt] by linarith
  then have "length ws \<le> 2 ^ 28 + 1" by simp
  then have m: "length ws * B \<le> (2 ^ 28 + 1) * B" by (rule mult_le_mono1)
  have "sts_cnt s2 \<le> sts_cnt ?s1 + (2 ^ 28 + 1) * B"
    by (rule order_trans [OF ws(2) add_left_mono [OF m]])
  then have le: "sts_cnt s2 \<le> sts_cnt s + 1 + (2 ^ 28 + 1) * B" by simp
  have "sts_cnt (snd (snd (KS_Read c eMemType i32KeyIdx au32Key u32WordCnt s))) \<le> sts_cnt s2 + 1"
    using False l by (cases rl) (simp_all add: KS_Read_def Let_def)
  then show ?thesis using le unfolding B_def by linarith
qed

lemma KS_Write_cost:
  "sts_cnt (snd (KS_Write c eMemType u32Meta au32Key s))
     \<le> sts_cnt s + 2 + 16 * (unat (KS_TIMEOUT c - 1) + 1)"
proof (cases "rd_STS s AND KS_STS_BUSY_Msk c \<noteq> 0")
  case True
  then show ?thesis by (simp add: KS_Write_def)
next
  case False
  define B where "B = unat (KS_TIMEOUT c - 1) + 1"
  let ?s1 = "wr_METADATA (push_bit (KS_METADATA_DST_Pos c) (KS_MEM_code c eMemType) OR u32Meta) (tick s)"
  show ?thesis
  proof (cases "KS_GetKeyWordCnt c u32Meta")
    case None
    then show ?thesis using False by (simp add: KS_Write_def Let_def)
  next
    case (Some n)
    note sm = KS_GetKeyWordCnt_small [OF Some]
    show ?thesis
    proof (cases "n = 0 \<or> (eMemType = KS_OTP \<and> 8 <s n)")
      case True
      then show ?thesis using False Some by (auto simp add: KS_Write_def Let_def)
    next
      case ok: False
      obtain rl s2 where l: "KS_Write_loop c 0 n 0 au32Key ?s1 = (rl, s2)"
        by (cases "KS_Write_loop c 0 n 0 au32Key ?s1") auto
      have "\<exists>ws :: u32 list. 8 * length ws \<le> chunk_bound n \<and> sts_cnt s2 \<le> sts_cnt ?s1 + length ws * B"
        using KS_Write_loop_frame [OF l] by (auto simp: B_def)
      then obtain ws :: "u32 list" where
        ws: "8 * length ws \<le> chunk_bound n" "sts_cnt s2 \<le> sts_cnt ?s1 + length ws * B"
        by blast
      have "0 < unat n" using ok by (simp add: unat_gt_0)
      then have "0 < sint n" unfolding sm(2) by (simp only: of_nat_0_less_iff)
      moreover have "nat (sint n) = unat n" unfolding sm(2) by (rule nat_int)
      ultimately have "0 < sint n" "nat (sint n) = unat n" by blast+
      then have "chunk_bound n \<le> 135" using sm(1) by (simp add: chunk_bound_def)
      then have "length ws \<le> 16" using ws(1) by simp
      then have m: "length ws * B \<le> 16 * B" by (rule mult_le_mono1)
      have "sts_cnt s2 \<le> sts_cnt ?s1 + 16 * B"
        by (rule order_trans [OF ws(2) add_left_mono [OF m]])
      then have le: "sts_cnt s2 \<le> sts_cnt s + 1 + 16 * B" by simp
      have "sts_cnt (snd (KS_Write c eMemType u32Meta au32Key s)) \<le> sts_cnt s2 + 1"
        using False Some ok l by (cases rl) (auto simp add: KS_Write_def Let_def)
      then show ?thesis using le unfolding B_def by linarith
    qed
  qed
qed

lemma KS_WriteOTP_cost:
  "sts_cnt (snd (KS_WriteOTP c i32KeyIdx u32Meta au32Key s))
     \<le> sts_cnt s + 2 + (unat (KS_TIMEOUT c - 1) + 1)"
proof -
  let ?s1 = "wr_METADATA (push_bit (KS_METADATA_DST_Pos c) (KS_MEM_code c KS_OTP) OR u32Meta OR
                              KS_TOMETAKEY c i32KeyIdx) (tick s)"
  have tail: "sts_cnt (snd (cmd_tail c (\<lambda>s. (i32KeyIdx, s)) s')) \<le> sts_cnt s' + unat (KS_TIMEOUT c - 1) + 2 + 0"
    for s' by (rule cmd_tail_cost) simp
  show ?thesis
  proof (cases "copy_to_KEY au32Key 0 0 (au8CntTbl_OTP ! size_idx c u32Meta) ?s1")
    case None
    then show ?thesis by (simp add: KS_WriteOTP_shape Let_def)
  next
    case (Some s2)
    note fr = copy_to_KEY_simps [OF Some]
    show ?thesis
      using tail [of "wr_CTL (KS_OP_WRITE c OR KS_CTL_START_Msk c OR
                            (CTL s2 AND (KS_CTL_SILENT_Msk c OR KS_CTL_SCMB_Msk c)))
                      (wr_STS (KS_STS_EIF_Msk c OR KS_STS_IF_Msk c) s2)"] Some fr
      by (simp add: KS_WriteOTP_shape Let_def)
  qed
qed

subsection \<open>The mode bits of the control register\<close>

lemma first_word_no_cont:
  fixes a b p q x k :: u32
  assumes "(a OR b OR p OR q) AND k = 0"
  shows "(0 OR a OR b OR (x AND (p OR q))) AND k = 0"
proof (rule bit_word_eqI)
  fix n assume "n < LENGTH(32)"
  have "\<not> bit ((a OR b OR p OR q) AND k) n" using assms by simp
  then show "bit ((0 OR a OR b OR (x AND (p OR q))) AND k) n = bit (0 :: u32) n"
    by (auto simp: bit_simps)
qed

lemma cmd_tail_CTL:
  assumes "\<And>s. CTL (snd (ret s)) = CTL s"
  shows "CTL (snd (cmd_tail c ret s)) = CTL s"
  using assms [of "tick (snd (wait_busy c s))"] wait_busy_frame(4) [of c s]
  by (simp add: cmd_tail_def split_def Let_def)

lemma keep_bits:
  fixes a x m :: u32
  assumes "a AND m = 0"
  shows "(a OR (x AND m)) AND m = x AND m"
proof (rule bit_word_eqI)
  fix n assume "n < LENGTH(32)"
  have "\<not> bit (a AND m) n" using assms by simp
  then show "bit ((a OR (x AND m)) AND m) n = bit (x AND m) n"
    by (auto simp: bit_simps)
qed

lemma mode_bits_kept:
  assumes "\<not> is_busy c (rd_STS s)"
    "(KS_OP_ERASE c OR KS_CTL_START_Msk c) AND (KS_CTL_SILENT_Msk c OR KS_CTL_SCMB_Msk c) = 0"
    "(KS_OP_ERASE_ALL c OR KS_CTL_START_Msk c) AND (KS_CTL_SILENT_Msk c OR KS_CTL_SCMB_Msk c) = 0"
    "(KS_OP_REVOKE c OR KS_CTL_START_Msk c) AND (KS_CTL_SILENT_Msk c OR KS_CTL_SCMB_Msk c) = 0"
    "(KS_OP_REMAN c OR KS_CTL_START_Msk c) AND (KS_CTL_SILENT_Msk c OR KS_CTL_SCMB_Msk c) = 0"
  shows "CTL (snd (KS_EraseKey c i32KeyIdx s)) AND (KS_CTL_SILENT_Msk c OR KS_CTL_SCMB_Msk c) =
           CTL s AND (KS_CTL_SILENT_Msk c OR KS_CTL_SCMB_Msk c)"
    and "CTL (snd (KS_EraseAll c eMemType s)) AND (KS_CTL_SILENT_Msk c OR KS_CTL_SCMB_Msk c) =
           CTL s AND (KS_CTL_SILENT_Msk c OR KS_CTL_SCMB_Msk c)"
    and "CTL (snd (KS_RevokeKey c eMemType i32KeyIdx s)) AND (KS_CTL_SILENT_Msk c OR KS_CTL_SCMB_Msk c) =
           CTL s AND (KS_CTL_SILENT_Msk c OR KS_CTL_SCMB_Msk c)"
    and "CTL (snd (KS_ToggleSRAM c s)) AND (KS_CTL_SILENT_Msk c OR KS_CTL_SCMB_Msk c) =
           CTL s AND (KS_CTL_SILENT_Msk c OR KS_CTL_SCMB_Msk c)"
  using assms(1) keep_bits [OF assms(2)] keep_bits [OF assms(3)] keep_bits [OF assms(4)]
    keep_bits [OF assms(5)]
  by (simp_all add: single_shapes cmd_tail_CTL or.assoc)

section \<open>The size table\<close>

text \<open>
  C4. For every size-class code from 0 to 20, \<^verbatim>\<open>KS_GetKeyWordCnt\<close> returns the entry of the
  21-entry table 4, 6, 6, 7, 8, 8, 8, 9, 12, 13, 16, 17, 18, 0, 0, 0, 32, 48, 64, 96, 128 at
  that code, and the result is 0 exactly for the reserved codes 13, 14 and 15. The function
  takes the metadata word only: it reads and writes no register and issues no command.
\<close>

theorem KS_GetKeyWordCnt_table:
  assumes "size_idx c u32Meta \<le> 20"
  shows "KS_GetKeyWordCnt c u32Meta =
           Some (of_nat ([4, 6, 6, 7, 8, 8, 8, 9, 12, 13, 16, 17, 18, 0, 0, 0, 32, 48, 64, 96, 128]
                          ! size_idx c u32Meta)) \<and>
         (KS_GetKeyWordCnt c u32Meta = Some 0 \<longleftrightarrow> size_idx c u32Meta \<in> {13, 14, 15})"
proof -
  have eq: "KS_GetKeyWordCnt c u32Meta = Some (of_nat (au8CntTbl ! size_idx c u32Meta))"
    using assms by (simp add: KS_GetKeyWordCnt_def au8CntTbl_def)
  have "((of_nat (au8CntTbl ! size_idx c u32Meta) :: u32) = 0) = (size_idx c u32Meta \<in> {13, 14, 15})"
    using idx_cases21 [OF assms] by (auto simp: au8CntTbl_def)
  then show ?thesis
    using eq by (simp add: au8CntTbl_def)
qed

theorem KS_GetKeyWordCnt_table_witness:
  "size_idx ks_layout0 0x0D00 \<le> 20 \<and> KS_GetKeyWordCnt ks_layout0 0x0D00 = Some 0 \<and>
   size_idx ks_layout0 0x1400 \<le> 20 \<and> KS_GetKeyWordCnt ks_layout0 0x1400 = Some 128"
proof -
  have a: "size_idx ks_layout0 0x0D00 = 13" and b: "size_idx ks_layout0 0x1400 = 20"
    by (simp_all add: size_idx_def ks_layout0_def)
  have ha: "size_idx ks_layout0 0x0D00 \<le> 20" and hb: "size_idx ks_layout0 0x1400 \<le> 20"
    by (simp_all add: a b)
  show ?thesis
    using ha hb KS_GetKeyWordCnt_table [OF ha] KS_GetKeyWordCnt_table [OF hb]
    by (simp add: a b)
qed

text \<open>
  C9. The table access of \<^verbatim>\<open>KS_GetKeyWordCnt\<close> is inside the table only when the size field
  decodes to at most 20. With a five-bit size field the index is at most 31 and every value
  from 0 to 31 is the index of some metadata word; the table has exactly 21 entries and the
  index is used unchecked, so the read is outside the table exactly for the codes from 21
  on, and the result is defined exactly when the code is at most 20.
\<close>

theorem KS_GetKeyWordCnt_index_range:
  assumes "ks_size_field c"
  shows "length au8CntTbl = 21 \<and>
         size_idx c u32Meta \<le> 31 \<and>
         (\<forall>v \<le> 31. \<exists>m. size_idx c m = v) \<and>
         (KS_GetKeyWordCnt c u32Meta = None \<longleftrightarrow> 21 \<le> size_idx c u32Meta) \<and>
         ((\<exists>n. KS_GetKeyWordCnt c u32Meta = Some n) \<longleftrightarrow> size_idx c u32Meta \<le> 20)"
proof -
  have len: "length au8CntTbl = 21"
    by (simp add: au8CntTbl_def)
  have att: "\<forall>v \<le> 31. \<exists>m. size_idx c m = v"
    using size_idx_attained [OF assms] by blast
  have none: "KS_GetKeyWordCnt c u32Meta = None \<longleftrightarrow> 21 \<le> size_idx c u32Meta"
    by (simp add: KS_GetKeyWordCnt_def len not_less)
  have some: "(\<exists>n. KS_GetKeyWordCnt c u32Meta = Some n) \<longleftrightarrow> size_idx c u32Meta \<le> 20"
    by (auto simp: KS_GetKeyWordCnt_def len)
  show ?thesis
    using len size_idx_le31 [OF assms] att none some by blast
qed

theorem KS_GetKeyWordCnt_index_range_witness:
  "ks_size_field ks_layout0 \<and> size_idx ks_layout0 0x1F00 = 31 \<and>
   KS_GetKeyWordCnt ks_layout0 0x1F00 = None \<and>
   size_idx ks_layout0 0x1500 = 21 \<and> KS_GetKeyWordCnt ks_layout0 0x1500 = None"
proof -
  have h: "ks_size_field ks_layout0"
    by (simp add: ks_size_field_def ks_layout0_def)
  have a: "size_idx ks_layout0 0x1F00 = 31" and b: "size_idx ks_layout0 0x1500 = 21"
    by (simp_all add: size_idx_def ks_layout0_def)
  show ?thesis
    using h KS_GetKeyWordCnt_index_range [OF h, of "0x1F00"]
      KS_GetKeyWordCnt_index_range [OF h, of "0x1500"]
    by (simp add: a b)
qed

section \<open>The entry check\<close>

text \<open>
  C1, as the code has it. Each of the nine command functions \<^verbatim>\<open>KS_Read\<close>, \<^verbatim>\<open>KS_Write\<close>,
  \<^verbatim>\<open>KS_WriteOTP\<close>, \<^verbatim>\<open>KS_EraseKey\<close>, \<^verbatim>\<open>KS_EraseOTPKey\<close>, \<^verbatim>\<open>KS_LockOTPKey\<close>, \<^verbatim>\<open>KS_EraseAll\<close>,
  \<^verbatim>\<open>KS_RevokeKey\<close> and \<^verbatim>\<open>KS_ToggleSRAM\<close>, called while the busy flag is set, returns
  \<^verbatim>\<open>KS_ERR_BUSY\<close> after that one read of the status register: it does not wait, and the
  control register, the metadata register, the key window and the caller's buffer are as
  before. \<^verbatim>\<open>KS_Open\<close> is different by design: it never returns \<^verbatim>\<open>KS_ERR_BUSY\<close> but polls until
  the flag clears or the countdown ends.
\<close>

theorem KS_busy_at_entry:
  assumes "is_busy c (rd_STS s)"
  shows "KS_Read c eMemType i32KeyIdx au32Key u32WordCnt s = (Inl KS_ERR_BUSY, au32Key, tick s) \<and>
     KS_Write c eMemType u32Meta au32Key s = (Inl KS_ERR_BUSY, tick s) \<and>
     KS_WriteOTP c i32KeyIdx u32Meta au32Key s = (Inl KS_ERR_BUSY, tick s) \<and>
     KS_EraseKey c i32KeyIdx s = (Inl KS_ERR_BUSY, tick s) \<and>
     KS_EraseOTPKey c i32KeyIdx s = (Inl KS_ERR_BUSY, tick s) \<and>
     KS_LockOTPKey c i32KeyIdx s = (Inl KS_ERR_BUSY, tick s) \<and>
     KS_EraseAll c eMemType s = (Inl KS_ERR_BUSY, tick s) \<and>
     KS_RevokeKey c eMemType i32KeyIdx s = (Inl KS_ERR_BUSY, tick s) \<and>
     KS_ToggleSRAM c s = (Inl KS_ERR_BUSY, tick s) \<and>
     tick s = s\<lparr>sts_cnt := sts_cnt s + 1\<rparr> \<and>
     CTL (tick s) = CTL s \<and> METADATA (tick s) = METADATA s \<and> KEY (tick s) = KEY s \<and>
     ctl_log (tick s) = ctl_log s \<and> sts_log (tick s) = sts_log s"
  using assms
  by (simp add: single_shapes KS_WriteOTP_shape KS_Read_def KS_Write_def is_busy_def tick_def)

theorem KS_busy_at_entry_witness:
  "is_busy ks_layout0 (rd_STS (ks_dev 0x400 sts_busy)) \<and>
   KS_EraseKey ks_layout0 3 (ks_dev 0x400 sts_busy) =
     (Inl KS_ERR_BUSY, (ks_dev 0x400 sts_busy)\<lparr>sts_cnt := 1\<rparr>) \<and>
   KS_Read ks_layout0 KS_SRAM 3 [0, 0] 2 (ks_dev 0x400 sts_busy) =
     (Inl KS_ERR_BUSY, [0, 0], (ks_dev 0x400 sts_busy)\<lparr>sts_cnt := 1\<rparr>)"
proof -
  have h: "is_busy ks_layout0 (rd_STS (ks_dev 0x400 sts_busy))"
    by (simp add: is_busy_def rd_STS_def ks_dev_def sts_busy_def ks_layout0_def)
  show ?thesis
    using h KS_busy_at_entry [OF h, of KS_SRAM 3 "[0, 0]" 2 0 ]
    by (simp add: tick_def ks_dev_def)
qed

text \<open>
  C1 as stated fails for \<^verbatim>\<open>KS_Open\<close>: with the busy flag set at the first read and clear
  afterwards, \<^verbatim>\<open>KS_Open\<close> waits, writes the initialisation strobe to the control register and
  returns \<^verbatim>\<open>KS_OK\<close> after four reads of the status register.
\<close>

theorem KS_Open_busy_counterexample:
  "is_busy ks_layout0 (rd_STS (ks_dev 0 sts_busy_once)) \<and>
   fst (KS_Open ks_layout0 (ks_dev 0 sts_busy_once)) = Inr () \<and>
   CTL (snd (KS_Open ks_layout0 (ks_dev 0 sts_busy_once))) = 0x101 \<and>
   CTL (ks_dev 0 sts_busy_once) = 0 \<and>
   sts_cnt (snd (KS_Open ks_layout0 (ks_dev 0 sts_busy_once))) = 4"
  by (simp add: KS_Open_def KS_Open_ready_def wait_busy_def wait_while.simps is_busy_def
      rd_STS_def ks_dev_def sts_busy_once_def ks_layout0_def)

section \<open>Timeout and hardware failure\<close>

text \<open>
  C7. When the busy flag is set at every poll of the countdown that follows the entry
  read, the function returns \<^verbatim>\<open>KS_ERR_TIMEOUT\<close>, whatever the error flag shows: \<^verbatim>\<open>KS_Open\<close>
  always, the nine command functions once their entry check has passed (and, for the two
  writes, once the size class and the buffer are accepted, so that a command is issued).
  The countdown has \<open>unat (KS_TIMEOUT c - 1) + 1\<close> polls, which is \<^verbatim>\<open>KS_TIMEOUT\<close> unless that
  is 0. The last three parts are the same fact for one pass of the loops of \<^verbatim>\<open>KS_Read\<close> and
  \<^verbatim>\<open>KS_Write\<close>, entered with any count and offset, and for the last wait of \<^verbatim>\<open>KS_Open\<close>: a
  later chunk, and the wait that follows the initialisation, time out like the first wait.
\<close>

theorem KS_timeout_when_busy_stays:
  assumes "\<forall>j \<le> unat (KS_TIMEOUT c - 1). is_busy c (hw_sts s (sts_cnt s + 1 + j))"
  shows "fst (KS_Open c s) = Inl KS_ERR_TIMEOUT \<and>
    (\<not> is_busy c (rd_STS s) \<longrightarrow>
       fst (KS_Read c eMemType i32KeyIdx au32Key u32WordCnt s) = Inl KS_ERR_TIMEOUT \<and>
       fst (KS_EraseKey c i32KeyIdx s) = Inl KS_ERR_TIMEOUT \<and>
       fst (KS_EraseOTPKey c i32KeyIdx s) = Inl KS_ERR_TIMEOUT \<and>
       fst (KS_LockOTPKey c i32KeyIdx s) = Inl KS_ERR_TIMEOUT \<and>
       fst (KS_EraseAll c eMemType s) = Inl KS_ERR_TIMEOUT \<and>
       fst (KS_RevokeKey c eMemType i32KeyIdx s) = Inl KS_ERR_TIMEOUT \<and>
       fst (KS_ToggleSRAM c s) = Inl KS_ERR_TIMEOUT \<and>
       (KS_GetKeyWordCnt c u32Meta = Some n \<and> n \<noteq> 0 \<and> (eMemType = KS_OTP \<longrightarrow> unat n \<le> 8) \<and>
        unat n \<le> length au32Key \<longrightarrow>
          fst (KS_Write c eMemType u32Meta au32Key s) = Inl KS_ERR_TIMEOUT) \<and>
       (size_idx c u32Meta \<le> unat (drop_bit (KS_METADATA_SIZE_Pos c) (KS_META_256 c)) \<and>
        size_idx c u32Meta < 7 \<and>
        au8CntTbl_OTP ! size_idx c u32Meta \<le> length au32Key \<longrightarrow>
          fst (KS_WriteOTP c i32KeyIdx u32Meta au32Key s) = Inl KS_ERR_TIMEOUT)) \<and>
    fst (KS_Read_loop c u32Cont i32Cnt offset au32Key (s\<lparr>sts_cnt := sts_cnt s + 1\<rparr>)) =
       Inl KS_ERR_TIMEOUT \<and>
    (copy_to_KEY au32Key (sint offset) 0 (nat (sint (if 8 <s i32Cnt then 8 else i32Cnt)))
        (s\<lparr>sts_cnt := sts_cnt s + 1\<rparr>) \<noteq> None \<longrightarrow>
     fst (KS_Write_loop c u32Cont i32Cnt offset au32Key (s\<lparr>sts_cnt := sts_cnt s + 1\<rparr>)) =
       Inl KS_ERR_TIMEOUT) \<and>
    fst (KS_Open_ready c (s\<lparr>sts_cnt := sts_cnt s + 1\<rparr>)) = Inl KS_ERR_TIMEOUT"
proof -
  have single: "fst (cmd_tail c ret (cmd_start meta clr ctl s)) = Inl KS_ERR_TIMEOUT"
    for ret :: "ks_state \<Rightarrow> 'a \<times> ks_state" and meta clr ctl
    by (rule cmd_tail_stuck) (use assms in simp)
  have here: "\<forall>j \<le> unat (KS_TIMEOUT c - 1).
      is_busy c (hw_sts (s\<lparr>sts_cnt := sts_cnt s + 1\<rparr>) (sts_cnt (s\<lparr>sts_cnt := sts_cnt s + 1\<rparr>) + j))"
    using assms by simp
  have rl: "fst (KS_Read_loop c u32Cont i32Cnt offset au32Key (s\<lparr>sts_cnt := sts_cnt s + 1\<rparr>)) =
       Inl KS_ERR_TIMEOUT"
    by (rule KS_Read_loop_stuck [OF here])
  have wl: "copy_to_KEY au32Key (sint offset) 0 (nat (sint (if 8 <s i32Cnt then 8 else i32Cnt)))
        (s\<lparr>sts_cnt := sts_cnt s + 1\<rparr>) \<noteq> None \<longrightarrow>
     fst (KS_Write_loop c u32Cont i32Cnt offset au32Key (s\<lparr>sts_cnt := sts_cnt s + 1\<rparr>)) =
       Inl KS_ERR_TIMEOUT"
    using KS_Write_loop_stuck [OF _ here] by blast
  have ops: "fst (KS_Open c s) = Inl KS_ERR_TIMEOUT \<and>
    (\<not> is_busy c (rd_STS s) \<longrightarrow>
       fst (KS_Read c eMemType i32KeyIdx au32Key u32WordCnt s) = Inl KS_ERR_TIMEOUT \<and>
       fst (KS_EraseKey c i32KeyIdx s) = Inl KS_ERR_TIMEOUT \<and>
       fst (KS_EraseOTPKey c i32KeyIdx s) = Inl KS_ERR_TIMEOUT \<and>
       fst (KS_LockOTPKey c i32KeyIdx s) = Inl KS_ERR_TIMEOUT \<and>
       fst (KS_EraseAll c eMemType s) = Inl KS_ERR_TIMEOUT \<and>
       fst (KS_RevokeKey c eMemType i32KeyIdx s) = Inl KS_ERR_TIMEOUT \<and>
       fst (KS_ToggleSRAM c s) = Inl KS_ERR_TIMEOUT \<and>
       (KS_GetKeyWordCnt c u32Meta = Some n \<and> n \<noteq> 0 \<and> (eMemType = KS_OTP \<longrightarrow> unat n \<le> 8) \<and>
        unat n \<le> length au32Key \<longrightarrow>
          fst (KS_Write c eMemType u32Meta au32Key s) = Inl KS_ERR_TIMEOUT) \<and>
       (size_idx c u32Meta \<le> unat (drop_bit (KS_METADATA_SIZE_Pos c) (KS_META_256 c)) \<and>
        size_idx c u32Meta < 7 \<and>
        au8CntTbl_OTP ! size_idx c u32Meta \<le> length au32Key \<longrightarrow>
          fst (KS_WriteOTP c i32KeyIdx u32Meta au32Key s) = Inl KS_ERR_TIMEOUT))"
    using KS_Open_stuck [OF assms] KS_Read_stuck [OF _ assms] KS_Write_stuck [OF _ assms]
      KS_WriteOTP_stuck [OF _ assms]
    by (simp add: single_shapes single)
  have "fst (wait_busy c (s\<lparr>sts_cnt := sts_cnt s + 1\<rparr>)) = False"
    by (rule wait_busy_stuck [OF here])
  then have fin: "fst (KS_Open_ready c (s\<lparr>sts_cnt := sts_cnt s + 1\<rparr>)) = Inl KS_ERR_TIMEOUT"
    by (simp add: KS_Open_ready_def Let_def split_def)
  show ?thesis
    using ops rl wl fin by blast
qed

theorem KS_timeout_when_busy_stays_witness:
  "\<not> is_busy ks_layout0 (sts_stuck 0) \<and> is_busy ks_layout0 (sts_stuck 1) \<and>
   is_busy ks_layout0 (sts_stuck 2) \<and> is_busy ks_layout0 (sts_stuck 3) \<and>
   sts_stuck 3 AND KS_STS_EIF_Msk ks_layout0 \<noteq> 0 \<and>
   fst (KS_Open ks_layout0 (ks_dev 0 sts_stuck)) = Inl KS_ERR_TIMEOUT \<and>
   fst (KS_EraseKey ks_layout0 1 (ks_dev 0 sts_stuck)) = Inl KS_ERR_TIMEOUT \<and>
   fst (KS_Read ks_layout0 KS_FLASH 1 [0, 0, 0, 0] 4 (ks_dev 0 sts_stuck)) = Inl KS_ERR_TIMEOUT \<and>
   fst (KS_Write ks_layout0 KS_FLASH 0 [1, 2, 3, 4] (ks_dev 0 sts_stuck)) = Inl KS_ERR_TIMEOUT"
proof -
  let ?s = "ks_dev 0 sts_stuck"
  have h: "\<forall>j \<le> unat (KS_TIMEOUT ks_layout0 - 1). is_busy ks_layout0 (hw_sts ?s (sts_cnt ?s + 1 + j))"
    by (simp add: budget0 is_busy_def ks_dev_def sts_stuck_def ks_layout0_def)
  have e: "\<not> is_busy ks_layout0 (rd_STS ?s)"
    by (simp add: is_busy_def rd_STS_def ks_dev_def sts_stuck_def ks_layout0_def)
  have g: "KS_GetKeyWordCnt ks_layout0 0 = Some 4"
    by (simp add: KS_GetKeyWordCnt_def size_idx_def au8CntTbl_def ks_layout0_def)
  have f: "\<not> is_busy ks_layout0 (sts_stuck 0) \<and> is_busy ks_layout0 (sts_stuck 1) \<and>
   is_busy ks_layout0 (sts_stuck 2) \<and> is_busy ks_layout0 (sts_stuck 3) \<and>
   sts_stuck 3 AND KS_STS_EIF_Msk ks_layout0 \<noteq> 0"
    by (simp add: is_busy_def sts_stuck_def ks_layout0_def)
  show ?thesis
    using f e g KS_timeout_when_busy_stays [OF h, of KS_FLASH 1 "[0, 0, 0, 0]" 4 0 4]
      KS_timeout_when_busy_stays [OF h, of KS_FLASH 1 "[1, 2, 3, 4]" 4 0 4]
    by simp
qed

text \<open>
  C8, as the code has it. For the single-command functions and \<^verbatim>\<open>KS_WriteOTP\<close>: the entry
  check passes, the busy flag is set for \<open>j\<close> polls within the countdown and clear at the
  next one, and the status read that follows shows the error flag; then the function
  returns \<^verbatim>\<open>KS_ERR_FAIL\<close>. For \<^verbatim>\<open>KS_Read\<close> and \<^verbatim>\<open>KS_Write\<close>: a call that returns neither
  \<^verbatim>\<open>KS_ERR_BUSY\<close>, \<^verbatim>\<open>KS_ERR_TIMEOUT\<close> nor \<^verbatim>\<open>KS_ERR_PARAMETER\<close> has passed the entry check and
  left every wait with the busy flag clear; its last read of the status register is the
  one after the final wait, and if that read shows the error flag the call returns
  \<^verbatim>\<open>KS_ERR_FAIL\<close>. \<^verbatim>\<open>KS_Open\<close> does not look at the error flag.
\<close>

theorem KS_error_flag_after_wait:
  assumes "\<not> is_busy c (rd_STS s)"
    "j \<le> unat (KS_TIMEOUT c - 1)" "\<forall>i < j. is_busy c (hw_sts s (sts_cnt s + 1 + i))"
    "\<not> is_busy c (hw_sts s (sts_cnt s + 1 + j))"
    "hw_sts s (sts_cnt s + 2 + j) AND KS_STS_EIF_Msk c \<noteq> 0"
  shows "fst (KS_EraseKey c i32KeyIdx s) = Inl KS_ERR_FAIL \<and>
    fst (KS_EraseOTPKey c i32KeyIdx s) = Inl KS_ERR_FAIL \<and>
    fst (KS_LockOTPKey c i32KeyIdx s) = Inl KS_ERR_FAIL \<and>
    fst (KS_EraseAll c eMemType s) = Inl KS_ERR_FAIL \<and>
    fst (KS_RevokeKey c eMemType i32KeyIdx s) = Inl KS_ERR_FAIL \<and>
    fst (KS_ToggleSRAM c s) = Inl KS_ERR_FAIL \<and>
    (size_idx c u32Meta \<le> unat (drop_bit (KS_METADATA_SIZE_Pos c) (KS_META_256 c)) \<and>
     size_idx c u32Meta < 7 \<and>
        au8CntTbl_OTP ! size_idx c u32Meta \<le> length au32Key \<longrightarrow>
       fst (KS_WriteOTP c i32KeyIdx u32Meta au32Key s) = Inl KS_ERR_FAIL) \<and>
    (KS_Read c eMemType i32KeyIdx au32Key u32WordCnt s1 = (r, buf', s1') \<and>
     r \<noteq> Inl KS_ERR_BUSY \<and> r \<noteq> Inl KS_ERR_TIMEOUT \<and> r \<noteq> Inl KS_UNDEFINED \<and>
     hw_sts s1 (sts_cnt s1' - 1) AND KS_STS_EIF_Msk c \<noteq> 0 \<longrightarrow> r = Inl KS_ERR_FAIL) \<and>
    (KS_Write c eMemType u32Meta au32Key s2 = (r', s2') \<and>
     r' \<noteq> Inl KS_ERR_BUSY \<and> r' \<noteq> Inl KS_ERR_TIMEOUT \<and> r' \<noteq> Inl KS_ERR_PARAMETER \<and>
     r' \<noteq> Inl KS_UNDEFINED \<and>
     hw_sts s2 (sts_cnt s2' - 1) AND KS_STS_EIF_Msk c \<noteq> 0 \<longrightarrow> r' = Inl KS_ERR_FAIL)"
proof -
  have single: "fst (cmd_tail c ret (cmd_start meta clr ctl s)) = Inl KS_ERR_FAIL"
    for ret :: "ks_state \<Rightarrow> 'a \<times> ks_state" and meta clr ctl
    by (rule cmd_tail_fail [OF assms(2)]) (use assms(3,4,5) in simp_all)
  show ?thesis
    using assms(1) KS_WriteOTP_fail [OF assms] KS_Read_fail KS_Write_fail
    by (simp add: single_shapes single) blast
qed

theorem KS_error_flag_after_wait_witness:
  "\<not> is_busy ks_layout0 (sts_late_fault 0) \<and> is_busy ks_layout0 (sts_late_fault 1) \<and>
   \<not> is_busy ks_layout0 (sts_late_fault 2) \<and>
   sts_late_fault 3 AND KS_STS_EIF_Msk ks_layout0 \<noteq> 0 \<and>
   fst (KS_EraseKey ks_layout0 1 (ks_dev 0 sts_late_fault)) = Inl KS_ERR_FAIL \<and>
   fst (KS_RevokeKey ks_layout0 KS_OTP 1 (ks_dev 0 sts_late_fault)) = Inl KS_ERR_FAIL \<and>
   fst (KS_ToggleSRAM ks_layout0 (ks_dev 0 sts_late_fault)) = Inl KS_ERR_FAIL \<and>
   fst (KS_WriteOTP ks_layout0 1 0x600 [1, 2, 3, 4, 5, 6, 7, 8] (ks_dev 0 sts_late_fault)) =
     Inl KS_ERR_FAIL"
proof -
  let ?s = "ks_dev 0 sts_late_fault"
  have e: "\<not> is_busy ks_layout0 (rd_STS ?s)"
    by (simp add: is_busy_def rd_STS_def ks_dev_def sts_late_fault_def ks_layout0_def)
  have j: "(1 :: nat) \<le> unat (KS_TIMEOUT ks_layout0 - 1)"
    by (simp add: budget0)
  have b: "\<forall>i < (1 :: nat). is_busy ks_layout0 (hw_sts ?s (sts_cnt ?s + 1 + i))"
    by (simp add: is_busy_def ks_dev_def sts_late_fault_def ks_layout0_def)
  have d: "\<not> is_busy ks_layout0 (hw_sts ?s (sts_cnt ?s + 1 + 1))"
    by (simp add: is_busy_def ks_dev_def sts_late_fault_def ks_layout0_def)
  have f: "hw_sts ?s (sts_cnt ?s + 2 + 1) AND KS_STS_EIF_Msk ks_layout0 \<noteq> 0"
    by (simp add: ks_dev_def sts_late_fault_def ks_layout0_def)
  have v: "size_idx ks_layout0 0x600 = 6"
    "unat (drop_bit (KS_METADATA_SIZE_Pos ks_layout0) (KS_META_256 ks_layout0)) = 6"
    by (simp_all add: size_idx_def ks_layout0_def)
  have g: "\<not> is_busy ks_layout0 (sts_late_fault 0) \<and> is_busy ks_layout0 (sts_late_fault 1) \<and>
   \<not> is_busy ks_layout0 (sts_late_fault 2) \<and>
   sts_late_fault 3 AND KS_STS_EIF_Msk ks_layout0 \<noteq> 0"
    by (simp add: is_busy_def sts_late_fault_def ks_layout0_def)
  show ?thesis
    using g v KS_error_flag_after_wait [OF e j b d f, of 1 KS_OTP "0x600" "[1, 2, 3, 4, 5, 6, 7, 8]"]
    by (simp add: au8CntTbl_OTP_def)
qed

text \<open>
  C8 as stated fails for \<^verbatim>\<open>KS_Open\<close>: the controller is initialised and never busy, every
  status read shows the error flag, and \<^verbatim>\<open>KS_Open\<close> returns \<^verbatim>\<open>KS_OK\<close>.
\<close>

theorem KS_Open_fault_counterexample:
  "\<not> is_busy ks_layout0 (sts_fault 0) \<and> \<not> is_busy ks_layout0 (sts_fault 1) \<and>
   sts_fault 0 AND KS_STS_EIF_Msk ks_layout0 \<noteq> 0 \<and>
   sts_fault 1 AND KS_STS_EIF_Msk ks_layout0 \<noteq> 0 \<and>
   KS_Open ks_layout0 (ks_dev 0 sts_fault) = (Inr (), (ks_dev 0 sts_fault)\<lparr>sts_cnt := 2\<rparr>)"
  by (simp add: KS_Open_def KS_Open_ready_def wait_busy_def wait_while.simps is_busy_def
      rd_STS_def ks_dev_def sts_fault_def ks_layout0_def tick_def)

section \<open>Termination of the waits\<close>

text \<open>
  C10. With a countdown \<^verbatim>\<open>KS_TIMEOUT\<close> that is not 0, every wait loop of the driver, whatever
  it waits for, makes at most \<^verbatim>\<open>KS_TIMEOUT\<close> polls of the status register, and it makes
  exactly \<^verbatim>\<open>KS_TIMEOUT\<close> of them when it ends by returning \<^verbatim>\<open>KS_ERR_TIMEOUT\<close>. Every function
  of the model is total, and the number of status reads of each of the ten operations is
  bounded whatever the status register answers: one entry read, the polls of its waits
  (three waits in \<^verbatim>\<open>KS_Open\<close>, at most 16 in \<^verbatim>\<open>KS_Write\<close>, at most \<open>2 ^ 28 + 1\<close> in \<^verbatim>\<open>KS_Read\<close>,
  one in the others) and the read of the error flag.
\<close>

theorem KS_waits_are_bounded:
  assumes "KS_TIMEOUT c \<noteq> 0"
  shows "(wait_while cond (KS_TIMEOUT c) s = (ok, s1) \<longrightarrow>
            sts_cnt s1 \<le> sts_cnt s + unat (KS_TIMEOUT c) \<and>
            (\<not> ok \<longrightarrow> sts_cnt s1 = sts_cnt s + unat (KS_TIMEOUT c))) \<and>
    sts_cnt (snd (KS_Open c s)) \<le> sts_cnt s + 1 + 3 * unat (KS_TIMEOUT c) \<and>
    sts_cnt (snd (snd (KS_Read c eMemType i32KeyIdx au32Key u32WordCnt s)))
       \<le> sts_cnt s + 2 + (2 ^ 28 + 1) * unat (KS_TIMEOUT c) \<and>
    sts_cnt (snd (KS_Write c eMemType u32Meta au32Key s)) \<le> sts_cnt s + 2 + 16 * unat (KS_TIMEOUT c) \<and>
    sts_cnt (snd (KS_WriteOTP c i32KeyIdx u32Meta au32Key s)) \<le> sts_cnt s + 2 + unat (KS_TIMEOUT c) \<and>
    sts_cnt (snd (KS_EraseKey c i32KeyIdx s)) \<le> sts_cnt s + 2 + unat (KS_TIMEOUT c) \<and>
    sts_cnt (snd (KS_EraseOTPKey c i32KeyIdx s)) \<le> sts_cnt s + 2 + unat (KS_TIMEOUT c) \<and>
    sts_cnt (snd (KS_LockOTPKey c i32KeyIdx s)) \<le> sts_cnt s + 2 + unat (KS_TIMEOUT c) \<and>
    sts_cnt (snd (KS_EraseAll c eMemType s)) \<le> sts_cnt s + 2 + unat (KS_TIMEOUT c) \<and>
    sts_cnt (snd (KS_RevokeKey c eMemType i32KeyIdx s)) \<le> sts_cnt s + 2 + unat (KS_TIMEOUT c) \<and>
    sts_cnt (snd (KS_ToggleSRAM c s)) \<le> sts_cnt s + 3 + unat (KS_TIMEOUT c)"
proof -
  note b = budget_unat [OF assms]
  have w: "wait_while cond (KS_TIMEOUT c) s = (ok, s1) \<longrightarrow>
            sts_cnt s1 \<le> sts_cnt s + unat (KS_TIMEOUT c) \<and>
            (\<not> ok \<longrightarrow> sts_cnt s1 = sts_cnt s + unat (KS_TIMEOUT c))"
  proof
    assume r: "wait_while cond (KS_TIMEOUT c) s = (ok, s1)"
    from wait_while_cases [OF r] obtain k where k: "k \<le> unat (KS_TIMEOUT c - 1)"
      "s1 = s\<lparr>sts_cnt := sts_cnt s + k + 1\<rparr>" "\<not> ok \<longrightarrow> k = unat (KS_TIMEOUT c - 1)"
      by (auto split: if_splits)
    then show "sts_cnt s1 \<le> sts_cnt s + unat (KS_TIMEOUT c) \<and>
            (\<not> ok \<longrightarrow> sts_cnt s1 = sts_cnt s + unat (KS_TIMEOUT c))"
      using b by auto
  qed
  have t0: "sts_cnt (snd (cmd_tail c (\<lambda>s. ((), s)) (cmd_start meta clr ctl s)))
      \<le> sts_cnt s + 2 + unat (KS_TIMEOUT c)" for meta clr ctl
    using cmd_tail_cost [of "\<lambda>s. ((), s)" 0 c "cmd_start meta clr ctl s"] b by simp
  have t1: "sts_cnt (snd (cmd_tail c (\<lambda>s. (0 < (rd_STS s AND KS_STS_RAMINV_Msk c), tick s))
        (cmd_start meta clr ctl s))) \<le> sts_cnt s + 3 + unat (KS_TIMEOUT c)" for meta clr ctl
    using cmd_tail_cost [of "\<lambda>s. (0 < (rd_STS s AND KS_STS_RAMINV_Msk c), tick s)" 1 c
        "cmd_start meta clr ctl s"] b by simp
  have singles: "sts_cnt (snd (KS_EraseKey c i32KeyIdx s)) \<le> sts_cnt s + 2 + unat (KS_TIMEOUT c) \<and>
    sts_cnt (snd (KS_EraseOTPKey c i32KeyIdx s)) \<le> sts_cnt s + 2 + unat (KS_TIMEOUT c) \<and>
    sts_cnt (snd (KS_LockOTPKey c i32KeyIdx s)) \<le> sts_cnt s + 2 + unat (KS_TIMEOUT c) \<and>
    sts_cnt (snd (KS_EraseAll c eMemType s)) \<le> sts_cnt s + 2 + unat (KS_TIMEOUT c) \<and>
    sts_cnt (snd (KS_RevokeKey c eMemType i32KeyIdx s)) \<le> sts_cnt s + 2 + unat (KS_TIMEOUT c) \<and>
    sts_cnt (snd (KS_ToggleSRAM c s)) \<le> sts_cnt s + 3 + unat (KS_TIMEOUT c)"
    using t0 t1 by (simp add: single_shapes)
  show ?thesis
    using w singles KS_Open_cost [of c s] KS_WriteOTP_cost [of c i32KeyIdx u32Meta au32Key s]
      KS_Read_cost [of c eMemType i32KeyIdx au32Key u32WordCnt s]
      KS_Write_cost [of c eMemType u32Meta au32Key s]
    unfolding b by blast
qed

theorem KS_waits_are_bounded_witness:
  "KS_TIMEOUT ks_layout0 \<noteq> 0 \<and> unat (KS_TIMEOUT ks_layout0) = 3 \<and>
   KS_EraseKey ks_layout0 1 (ks_dev 0 sts_stuck) =
     (Inl KS_ERR_TIMEOUT, (ks_dev 0 sts_stuck)\<lparr>CTL := 5, METADATA := 0x100000,
        ctl_log := [5], sts_log := [3], sts_cnt := 4\<rparr>) \<and>
   sts_cnt (snd (KS_EraseKey ks_layout0 1 (ks_dev 0 sts_stuck))) \<le> 0 + 2 + 3 \<and>
   sts_cnt (snd (KS_Open ks_layout0 (ks_dev 0 sts_busy))) \<le> 0 + 1 + 3 * 3"
proof -
  have h: "KS_TIMEOUT ks_layout0 \<noteq> 0" and u: "unat (KS_TIMEOUT ks_layout0) = 3"
    by (simp_all add: ks_layout0_def)
  have e: "KS_EraseKey ks_layout0 1 (ks_dev 0 sts_stuck) =
     (Inl KS_ERR_TIMEOUT, (ks_dev 0 sts_stuck)\<lparr>CTL := 5, METADATA := 0x100000,
        ctl_log := [5], sts_log := [3], sts_cnt := 4\<rparr>)"
    by (simp add: KS_EraseKey_def wait_busy_def wait_while.simps is_busy_def rd_STS_def
        ks_dev_def sts_stuck_def ks_layout0_def tick_def wr_CTL_def wr_STS_def wr_METADATA_def)
  show ?thesis
    using h u e KS_waits_are_bounded [OF h, of _ "ks_dev 0 sts_stuck" _ _ _ 1]
      KS_waits_are_bounded [OF h, of _ "ks_dev 0 sts_busy"]
    by (simp add: ks_dev_def)
qed

section \<open>Parameter checks of the writes\<close>

text \<open>
  C3, as the code has it. For every memory type and every metadata word whose size class
  maps to the word count 0, \<^verbatim>\<open>KS_Write\<close> called with the busy flag clear returns
  \<^verbatim>\<open>KS_ERR_PARAMETER\<close> and issues no command: nothing is written to the control register,
  the status register or the key window. By then it has read the status register and
  written the metadata register, which holds the memory type and the metadata word. With
  the busy flag set the call returns \<^verbatim>\<open>KS_ERR_BUSY\<close> and writes nothing.
\<close>

theorem KS_Write_zero_size:
  assumes "KS_GetKeyWordCnt c u32Meta = Some 0"
  shows "KS_Write c eMemType u32Meta au32Key s =
           (if is_busy c (rd_STS s) then (Inl KS_ERR_BUSY, tick s)
            else (Inl KS_ERR_PARAMETER,
                  (tick s)\<lparr>METADATA := push_bit (KS_METADATA_DST_Pos c) (KS_MEM_code c eMemType) OR u32Meta\<rparr>)) \<and>
         ctl_log (snd (KS_Write c eMemType u32Meta au32Key s)) = ctl_log s \<and>
         sts_log (snd (KS_Write c eMemType u32Meta au32Key s)) = sts_log s \<and>
         CTL (snd (KS_Write c eMemType u32Meta au32Key s)) = CTL s \<and>
         KEY (snd (KS_Write c eMemType u32Meta au32Key s)) = KEY s"
  using assms by (simp add: KS_Write_def is_busy_def Let_def wr_METADATA_def)

theorem KS_Write_zero_size_witness:
  "KS_GetKeyWordCnt ks_layout0 0xD00 = Some 0 \<and>
   KS_Write ks_layout0 KS_FLASH 0xD00 [] (ks_dev 0 sts_idle) =
     (Inl KS_ERR_PARAMETER, (ks_dev 0 sts_idle)\<lparr>METADATA := 0x40000D00, sts_cnt := 1\<rparr>) \<and>
   KS_Write ks_layout0 KS_FLASH 0xD00 [] (ks_dev 0 sts_busy) =
     (Inl KS_ERR_BUSY, (ks_dev 0 sts_busy)\<lparr>sts_cnt := 1\<rparr>)"
proof -
  have h: "KS_GetKeyWordCnt ks_layout0 0xD00 = Some 0"
    by (simp add: KS_GetKeyWordCnt_def size_idx_def au8CntTbl_def ks_layout0_def)
  have b: "\<not> is_busy ks_layout0 (rd_STS (ks_dev 0 sts_idle))" "is_busy ks_layout0 (rd_STS (ks_dev 0 sts_busy))"
    by (simp_all add: is_busy_def rd_STS_def ks_dev_def sts_idle_def sts_busy_def ks_layout0_def)
  have m: "push_bit (KS_METADATA_DST_Pos ks_layout0) (KS_MEM_code ks_layout0 KS_FLASH) OR 0xD00 = (0x40000D00 :: u32)"
    by (simp add: ks_layout0_def)
  show ?thesis
    using h b KS_Write_zero_size [OF h, of KS_FLASH "[]" "ks_dev 0 sts_idle"]
      KS_Write_zero_size [OF h, of KS_FLASH "[]" "ks_dev 0 sts_busy"]
    by (simp add: m tick_def ks_dev_def)
qed

text \<open>
  C3 as stated fails in its last part: with the reserved size class 13 the call returns
  \<^verbatim>\<open>KS_ERR_PARAMETER\<close>, but the metadata register, 0 before the call, then holds the
  destination and the metadata word.
\<close>

theorem KS_Write_zero_size_counterexample:
  "KS_GetKeyWordCnt ks_layout0 0xD00 = Some 0 \<and>
   \<not> is_busy ks_layout0 (rd_STS (ks_dev 0 sts_idle)) \<and>
   fst (KS_Write ks_layout0 KS_FLASH 0xD00 [] (ks_dev 0 sts_idle)) = Inl KS_ERR_PARAMETER \<and>
   METADATA (ks_dev 0 sts_idle) = 0 \<and>
   METADATA (snd (KS_Write ks_layout0 KS_FLASH 0xD00 [] (ks_dev 0 sts_idle))) = 0x40000D00"
  by (simp add: KS_Write_def KS_GetKeyWordCnt_def size_idx_def au8CntTbl_def is_busy_def rd_STS_def
      ks_dev_def sts_idle_def ks_layout0_def Let_def)

text \<open>
  C5, as the code has it. A write to the one-time-programmable memory of a key of more than
  8 words always fails and issues no command. When the busy flag is clear at the entry
  read, \<^verbatim>\<open>KS_Write\<close> with memory type \<^verbatim>\<open>KS_OTP\<close> and a size class of more than 8 words, and
  \<^verbatim>\<open>KS_WriteOTP\<close> with a size index greater than the one of \<^verbatim>\<open>KS_META_256\<close>, return
  \<^verbatim>\<open>KS_ERR_PARAMETER\<close>, having written the metadata register only. When the busy flag is set
  at the entry read, the entry check comes first: both return \<^verbatim>\<open>KS_ERR_BUSY\<close> and write
  nothing. The table of \<^verbatim>\<open>KS_WriteOTP\<close> has 7 entries; where the index of \<^verbatim>\<open>KS_META_256\<close> is
  6, the last entry, every index beyond the table is rejected in this way.
\<close>

theorem KS_OTP_size_limit:
  "(KS_GetKeyWordCnt c u32Meta = Some n \<and> 8 < unat n \<longrightarrow>
      KS_Write c KS_OTP u32Meta au32Key s =
        (if is_busy c (rd_STS s) then (Inl KS_ERR_BUSY, tick s)
         else (Inl KS_ERR_PARAMETER,
               wr_METADATA (push_bit (KS_METADATA_DST_Pos c) (KS_MEM_code c KS_OTP) OR u32Meta) (tick s)))) \<and>
   (unat (drop_bit (KS_METADATA_SIZE_Pos c) (KS_META_256 c)) < size_idx c u32Meta \<longrightarrow>
      KS_WriteOTP c i32KeyIdx u32Meta au32Key s =
        (if is_busy c (rd_STS s) then (Inl KS_ERR_BUSY, tick s)
         else (Inl KS_ERR_PARAMETER,
               wr_METADATA (push_bit (KS_METADATA_DST_Pos c) (KS_MEM_code c KS_OTP) OR u32Meta OR
                            KS_TOMETAKEY c i32KeyIdx) (tick s)))) \<and>
   length au8CntTbl_OTP = 7 \<and>
   (unat (drop_bit (KS_METADATA_SIZE_Pos c) (KS_META_256 c)) = 6 \<and>
    length au8CntTbl_OTP \<le> size_idx c u32Meta \<longrightarrow>
      fst (KS_WriteOTP c i32KeyIdx u32Meta au32Key s) =
        (if is_busy c (rd_STS s) then Inl KS_ERR_BUSY else Inl KS_ERR_PARAMETER))"
proof -
  have w: "KS_GetKeyWordCnt c u32Meta = Some n \<and> 8 < unat n \<longrightarrow>
      KS_Write c KS_OTP u32Meta au32Key s =
        (if is_busy c (rd_STS s) then (Inl KS_ERR_BUSY, tick s)
         else (Inl KS_ERR_PARAMETER,
               wr_METADATA (push_bit (KS_METADATA_DST_Pos c) (KS_MEM_code c KS_OTP) OR u32Meta) (tick s)))"
  proof
    assume a: "KS_GetKeyWordCnt c u32Meta = Some n \<and> 8 < unat n"
    then have "8 <s n" using KS_GetKeyWordCnt_small(3) [of c u32Meta n] by simp
    then show "KS_Write c KS_OTP u32Meta au32Key s =
        (if is_busy c (rd_STS s) then (Inl KS_ERR_BUSY, tick s)
         else (Inl KS_ERR_PARAMETER,
               wr_METADATA (push_bit (KS_METADATA_DST_Pos c) (KS_MEM_code c KS_OTP) OR u32Meta) (tick s)))"
      using a by (simp add: KS_Write_def is_busy_def Let_def)
  qed
  have o: "unat (drop_bit (KS_METADATA_SIZE_Pos c) (KS_META_256 c)) < size_idx c u32Meta \<longrightarrow>
      KS_WriteOTP c i32KeyIdx u32Meta au32Key s =
        (if is_busy c (rd_STS s) then (Inl KS_ERR_BUSY, tick s)
         else (Inl KS_ERR_PARAMETER,
               wr_METADATA (push_bit (KS_METADATA_DST_Pos c) (KS_MEM_code c KS_OTP) OR u32Meta OR
                            KS_TOMETAKEY c i32KeyIdx) (tick s)))"
    by (simp add: KS_WriteOTP_def is_busy_def Let_def)
  have l: "length au8CntTbl_OTP = 7" by (simp add: au8CntTbl_OTP_def)
  have t: "unat (drop_bit (KS_METADATA_SIZE_Pos c) (KS_META_256 c)) = 6 \<and>
    length au8CntTbl_OTP \<le> size_idx c u32Meta \<longrightarrow>
      fst (KS_WriteOTP c i32KeyIdx u32Meta au32Key s) =
        (if is_busy c (rd_STS s) then Inl KS_ERR_BUSY else Inl KS_ERR_PARAMETER)"
    using o l by auto
  show ?thesis using w o l t by blast
qed

theorem KS_OTP_size_limit_witness:
  "KS_GetKeyWordCnt ks_layout0 0x800 = Some 12 \<and>
   KS_Write ks_layout0 KS_OTP 0x800 [] (ks_dev 0 sts_idle) =
     (Inl KS_ERR_PARAMETER, (ks_dev 0 sts_idle)\<lparr>METADATA := 0x80000800, sts_cnt := 1\<rparr>) \<and>
   size_idx ks_layout0 0x700 = 7 \<and>
   KS_WriteOTP ks_layout0 2 0x700 [] (ks_dev 0 sts_idle) =
     (Inl KS_ERR_PARAMETER, (ks_dev 0 sts_idle)\<lparr>METADATA := 0x80200700, sts_cnt := 1\<rparr>)"
proof -
  have g: "KS_GetKeyWordCnt ks_layout0 0x800 = Some 12" "(8 :: nat) < unat (12 :: u32)"
    by (simp_all add: KS_GetKeyWordCnt_def size_idx_def au8CntTbl_def ks_layout0_def)
  have i: "size_idx ks_layout0 0x700 = 7"
    "unat (drop_bit (KS_METADATA_SIZE_Pos ks_layout0) (KS_META_256 ks_layout0)) = 6"
    by (simp_all add: size_idx_def ks_layout0_def)
  have b: "\<not> is_busy ks_layout0 (rd_STS (ks_dev 0 sts_idle))"
    by (simp add: is_busy_def rd_STS_def ks_dev_def sts_idle_def ks_layout0_def)
  have m: "push_bit (KS_METADATA_DST_Pos ks_layout0) (KS_MEM_code ks_layout0 KS_OTP) OR 0x800 = (0x80000800 :: u32)"
    "push_bit (KS_METADATA_DST_Pos ks_layout0) (KS_MEM_code ks_layout0 KS_OTP) OR 0x700 OR
       KS_TOMETAKEY ks_layout0 2 = (0x80200700 :: u32)"
    by (simp_all add: ks_layout0_def)
  show ?thesis
    using g i b KS_OTP_size_limit [of ks_layout0 "0x800" 12 "[]" "ks_dev 0 sts_idle" 2]
      KS_OTP_size_limit [of ks_layout0 "0x700" 12 "[]" "ks_dev 0 sts_idle" 2]
    by (simp add: m tick_def wr_METADATA_def ks_dev_def)
qed

text \<open>
  C5 as stated fails while the controller is busy: the metadata asks for 12 words in the
  one-time-programmable memory, and for the size index 7 beyond the table of \<^verbatim>\<open>KS_WriteOTP\<close>,
  yet \<^verbatim>\<open>KS_Write\<close> and \<^verbatim>\<open>KS_WriteOTP\<close> return \<^verbatim>\<open>KS_ERR_BUSY\<close>, not \<^verbatim>\<open>KS_ERR_PARAMETER\<close>: the
  size is never looked at.
\<close>

theorem KS_OTP_size_limit_counterexample:
  "KS_GetKeyWordCnt ks_layout0 0x800 = Some 12 \<and> 8 < unat (12 :: u32) \<and>
   size_idx ks_layout0 0x700 = 7 \<and>
   unat (drop_bit (KS_METADATA_SIZE_Pos ks_layout0) (KS_META_256 ks_layout0)) = 6 \<and>
   is_busy ks_layout0 (rd_STS (ks_dev 0 sts_busy)) \<and>
   KS_Write ks_layout0 KS_OTP 0x800 [] (ks_dev 0 sts_busy) =
     (Inl KS_ERR_BUSY, (ks_dev 0 sts_busy)\<lparr>sts_cnt := 1\<rparr>) \<and>
   KS_WriteOTP ks_layout0 2 0x700 [] (ks_dev 0 sts_busy) =
     (Inl KS_ERR_BUSY, (ks_dev 0 sts_busy)\<lparr>sts_cnt := 1\<rparr>) \<and>
   fst (KS_Write ks_layout0 KS_OTP 0x800 [] (ks_dev 0 sts_busy)) \<noteq> Inl KS_ERR_PARAMETER \<and>
   fst (KS_WriteOTP ks_layout0 2 0x700 [] (ks_dev 0 sts_busy)) \<noteq> Inl KS_ERR_PARAMETER"
  by (simp add: KS_Write_def KS_WriteOTP_def KS_GetKeyWordCnt_def size_idx_def au8CntTbl_def
      is_busy_def rd_STS_def ks_dev_def sts_busy_def ks_layout0_def tick_def)

section \<open>The mode bits in the command word\<close>

text \<open>
  C6. The silent and scramble bits are set in the control register and the controller is
  idle. \<^verbatim>\<open>KS_EraseKey\<close> writes the command word with both bits kept (\<open>0x8405\<close>); \<^verbatim>\<open>KS_EraseOTPKey\<close>
  and \<^verbatim>\<open>KS_LockOTPKey\<close> write the opcode and the start bit only (\<open>0x5\<close>, \<open>0xF\<close>), so that both
  bits are clear in the control register afterwards.
\<close>

theorem KS_EraseOTPKey_clears_mode_bits:
  "CTL (ks_dev 0x8400 sts_idle) AND
     (KS_CTL_SILENT_Msk ks_layout0 OR KS_CTL_SCMB_Msk ks_layout0) = 0x8400 \<and>
   KS_EraseKey ks_layout0 1 (ks_dev 0x8400 sts_idle) =
     (Inr (), (ks_dev 0x8400 sts_idle)\<lparr>CTL := 0x8405, METADATA := 0x100000,
        ctl_log := [0x8405], sts_log := [3], sts_cnt := 3\<rparr>) \<and>
   KS_EraseOTPKey ks_layout0 1 (ks_dev 0x8400 sts_idle) =
     (Inr (), (ks_dev 0x8400 sts_idle)\<lparr>CTL := 0x5, METADATA := 0x80100000,
        ctl_log := [0x5], sts_log := [3], sts_cnt := 3\<rparr>) \<and>
   KS_LockOTPKey ks_layout0 1 (ks_dev 0x8400 sts_idle) =
     (Inr (), (ks_dev 0x8400 sts_idle)\<lparr>CTL := 0xF, METADATA := 0x80100000,
        ctl_log := [0xF], sts_log := [3], sts_cnt := 3\<rparr>) \<and>
   CTL (snd (KS_EraseOTPKey ks_layout0 1 (ks_dev 0x8400 sts_idle))) AND
     (KS_CTL_SILENT_Msk ks_layout0 OR KS_CTL_SCMB_Msk ks_layout0) = 0 \<and>
   CTL (snd (KS_LockOTPKey ks_layout0 1 (ks_dev 0x8400 sts_idle))) AND
     (KS_CTL_SILENT_Msk ks_layout0 OR KS_CTL_SCMB_Msk ks_layout0) = 0"
  by (simp add: KS_EraseKey_def KS_EraseOTPKey_def KS_LockOTPKey_def wait_busy_def wait_while.simps
      is_busy_def rd_STS_def ks_dev_def sts_idle_def ks_layout0_def tick_def wr_CTL_def wr_STS_def
      wr_METADATA_def)

section \<open>Chunked reads\<close>

text \<open>
  C2, as the code has it. Let \<open>N\<close> be a word count with \<open>8 < N < 2 ^ 31\<close>, the buffer hold at
  least \<open>N\<close> words, and the call of \<^verbatim>\<open>KS_Read\<close> return neither \<^verbatim>\<open>KS_ERR_BUSY\<close> nor
  \<^verbatim>\<open>KS_ERR_TIMEOUT\<close>; let the opcode, start, silent and scramble bits lie outside the continue
  bit. Then the call returns \<^verbatim>\<open>KS_OK\<close> or \<^verbatim>\<open>KS_ERR_FAIL\<close>; it has written exactly
  \<open>(N + 7) div 8\<close> command words to the control register, the first with the continue bit
  clear and every later one with it set; chunk \<open>k\<close> has filled the buffer offsets \<open>8 * k\<close> to
  \<open>8 * k + min 8 (N - 8 * k) - 1\<close> from the window as it stands after command \<open>k + 1\<close> of the
  call; and the buffer is unchanged from offset \<open>N\<close> on.
\<close>

theorem KS_Read_chunks:
  assumes "8 < unat u32WordCnt" "unat u32WordCnt < 2 ^ 31" "unat u32WordCnt \<le> length au32Key"
    "KS_Read c eMemType i32KeyIdx au32Key u32WordCnt s = (r, buf', s')"
    "r \<noteq> Inl KS_ERR_BUSY" "r \<noteq> Inl KS_ERR_TIMEOUT"
    "(KS_OP_READ c OR KS_CTL_START_Msk c OR KS_CTL_SILENT_Msk c OR KS_CTL_SCMB_Msk c) AND
       KS_CTL_CONT_Msk c = 0"
  shows "(r = Inr () \<or> r = Inl KS_ERR_FAIL) \<and>
    (\<exists>ws. ctl_log s' = ctl_log s @ ws \<and> length ws = (unat u32WordCnt + 7) div 8 \<and>
       ws ! 0 AND KS_CTL_CONT_Msk c = 0 \<and>
       (\<forall>k. 0 < k \<and> k < length ws \<longrightarrow> ws ! k AND KS_CTL_CONT_Msk c = KS_CTL_CONT_Msk c)) \<and>
    length buf' = length au32Key \<and>
    (\<forall>k i. i < min 8 (unat u32WordCnt - 8 * k) \<longrightarrow>
       buf' ! (8 * k + i) = hw_key s (length (ctl_log s) + k + 1) i) \<and>
    (\<forall>j \<ge> unat u32WordCnt. buf' ! j = au32Key ! j)"
proof -
  define n where "n = unat u32WordCnt"
  let ?s1 = "wr_METADATA (push_bit (KS_METADATA_DST_Pos c) (KS_MEM_code c eMemType) OR
                              KS_TOMETAKEY c i32KeyIdx) (tick s)"
  have nb: "rd_STS s AND KS_STS_BUSY_Msk c = 0"
    using assms(4,5) by (auto simp: KS_Read_def split: if_splits)
  obtain rl b s2 where l: "KS_Read_loop c 0 u32WordCnt 0 au32Key ?s1 = (rl, b, s2)"
    by (cases "KS_Read_loop c 0 u32WordCnt 0 au32Key ?s1") auto
  have whole: "KS_Read c eMemType i32KeyIdx au32Key u32WordCnt s =
      (case rl of Inl e \<Rightarrow> (Inl e, b, s2)
           | Inr u \<Rightarrow> if rd_STS s2 AND KS_STS_EIF_Msk c \<noteq> 0 then (Inl KS_ERR_FAIL, b, tick s2)
               else (Inr (), b, tick s2))"
    using nb l by (cases rl) (simp_all add: KS_Read_def Let_def)
  have nt: "rl \<noteq> Inl KS_ERR_TIMEOUT"
    using whole assms(4,6) by auto
  have sn: "sint u32WordCnt = int n"
    unfolding n_def by (rule sint_of_unat [OF assms(2)])
  have s0: "sint (0 :: i32) = int 0" by simp
  have pos: "0 < n" and len: "0 + n \<le> length au32Key" and lt: "0 + n < 2 ^ 31"
    using assms(1,2,3) by (simp_all add: n_def)
  note lp = KS_Read_loop_copy [OF l nt sn pos s0 len lt]
  have rl: "rl = Inr ()" using lp by blast
  have res: "(if rd_STS s2 AND KS_STS_EIF_Msk c \<noteq> 0 then (Inl KS_ERR_FAIL, b, tick s2)
               else (Inr (), b, tick s2)) = (r, buf', s')"
    using whole assms(4) rl by simp
  then have r: "r = Inr () \<or> r = Inl KS_ERR_FAIL" and b: "buf' = b" and s': "s' = tick s2"
    by (auto split: if_splits)
  from lp obtain ws where ws: "ctl_log s2 = ctl_log ?s1 @ ws" "length ws = (n + 7) div 8"
    "ws ! 0 = 0 OR KS_OP_READ c OR KS_CTL_START_Msk c OR
                (CTL ?s1 AND (KS_CTL_SILENT_Msk c OR KS_CTL_SCMB_Msk c))"
    "\<forall>k. 0 < k \<and> k < length ws \<longrightarrow> ws ! k AND KS_CTL_CONT_Msk c = KS_CTL_CONT_Msk c"
    by blast
  have w0: "ws ! 0 AND KS_CTL_CONT_Msk c = 0"
    unfolding ws(3) by (rule first_word_no_cont [OF assms(7)])
  have cmds: "\<exists>ws. ctl_log s' = ctl_log s @ ws \<and> length ws = (unat u32WordCnt + 7) div 8 \<and>
       ws ! 0 AND KS_CTL_CONT_Msk c = 0 \<and>
       (\<forall>k. 0 < k \<and> k < length ws \<longrightarrow> ws ! k AND KS_CTL_CONT_Msk c = KS_CTL_CONT_Msk c)"
    using ws(1,2,4) w0 s' by (intro exI [of _ ws]) (simp add: n_def)
  have lenb: "length buf' = length au32Key"
    using KS_Read_loop_frame [OF l] b by simp
  have cp: "\<forall>j < n. b ! (0 + j) = hw_key ?s1 (length (ctl_log ?s1) + 1 + j div 8) (j mod 8)"
    using lp by blast
  have chunks: "\<forall>k i. i < min 8 (unat u32WordCnt - 8 * k) \<longrightarrow>
       buf' ! (8 * k + i) = hw_key s (length (ctl_log s) + k + 1) i"
  proof (intro allI impI)
    fix k i assume i: "i < min 8 (unat u32WordCnt - 8 * k)"
    then have j: "8 * k + i < n" "i < 8" unfolding n_def by arith+
    have "(8 * k + i) div 8 = k" "(8 * k + i) mod 8 = i" using j(2) by simp_all
    then show "buf' ! (8 * k + i) = hw_key s (length (ctl_log s) + k + 1) i"
      using cp j(1) b by (auto simp: add.commute)
  qed
  have frame: "\<forall>j \<ge> unat u32WordCnt. buf' ! j = au32Key ! j"
    using lp b by (simp add: n_def)
  show ?thesis
    using r cmds lenb chunks frame by blast
qed

lemma KS_Read_20:
  "KS_Read ks_layout0 KS_SRAM 2 (replicate 20 0) 20 (ks_dev 0x400 sts_idle) =
     (Inr (),
      [100, 101, 102, 103, 104, 105, 106, 107, 200, 201, 202, 203, 204, 205, 206, 207,
       300, 301, 302, 303],
      (ks_dev 0x400 sts_idle)\<lparr>CTL := 0x481, METADATA := 0x200000,
         ctl_log := [0x401, 0x481, 0x481], sts_log := [3, 3, 3], sts_cnt := 5\<rparr>)"
  by (simp add: KS_Read_def KS_Read_loop.simps wait_busy_def wait_while.simps is_busy_def rd_STS_def
      rd_KEY_def ks_dev_def sts_idle_def ks_layout0_def tick_def wr_CTL_def wr_STS_def
      wr_METADATA_def Let_def word_sless_alt eval_nat_numeral)

theorem KS_Read_chunks_witness:
  "8 < unat (20 :: u32) \<and> (unat (20 :: u32) + 7) div 8 = 3 \<and>
   KS_Read ks_layout0 KS_SRAM 2 (replicate 20 0) 20 (ks_dev 0x400 sts_idle) =
     (Inr (),
      [100, 101, 102, 103, 104, 105, 106, 107, 200, 201, 202, 203, 204, 205, 206, 207,
       300, 301, 302, 303],
      (ks_dev 0x400 sts_idle)\<lparr>CTL := 0x481, METADATA := 0x200000,
         ctl_log := [0x401, 0x481, 0x481], sts_log := [3, 3, 3], sts_cnt := 5\<rparr>) \<and>
   (0x401 :: u32) AND KS_CTL_CONT_Msk ks_layout0 = 0 \<and>
   (0x481 :: u32) AND KS_CTL_CONT_Msk ks_layout0 = KS_CTL_CONT_Msk ks_layout0 \<and>
   KS_CTL_CONT_Msk ks_layout0 \<noteq> 0"
proof -
  have h1: "8 < unat (20 :: u32)" and h2: "unat (20 :: u32) < 2 ^ 31"
    and h3: "unat (20 :: u32) \<le> length (replicate 20 (0 :: u32))"
    by simp_all
  have h5: "(Inr () :: ks_err + unit) \<noteq> Inl KS_ERR_BUSY"
    and h6: "(Inr () :: ks_err + unit) \<noteq> Inl KS_ERR_TIMEOUT"
    by simp_all
  have h7: "(KS_OP_READ ks_layout0 OR KS_CTL_START_Msk ks_layout0 OR KS_CTL_SILENT_Msk ks_layout0 OR
      KS_CTL_SCMB_Msk ks_layout0) AND KS_CTL_CONT_Msk ks_layout0 = 0"
    by (simp add: ks_layout0_def)
  have c: "(0x401 :: u32) AND KS_CTL_CONT_Msk ks_layout0 = 0 \<and>
   (0x481 :: u32) AND KS_CTL_CONT_Msk ks_layout0 = KS_CTL_CONT_Msk ks_layout0 \<and>
   KS_CTL_CONT_Msk ks_layout0 \<noteq> 0"
    by (simp add: ks_layout0_def)
  show ?thesis
    using h1 c KS_Read_20 KS_Read_chunks [OF h1 h2 h3 KS_Read_20 h5 h6 h7]
    by simp
qed

text \<open>
  C2 as stated fails for a count that is not positive as an \<^verbatim>\<open>int32_t\<close>: for
  \<open>N = 0x80000008\<close> the loop runs once, copies nothing and \<^verbatim>\<open>KS_Read\<close> returns \<^verbatim>\<open>KS_OK\<close> after
  one command, where \<open>(N + 7) div 8\<close> is 268435457.
\<close>

theorem KS_Read_chunks_counterexample:
  "8 < unat (0x80000008 :: u32) \<and> (unat (0x80000008 :: u32) + 7) div 8 = 268435457 \<and>
   KS_Read ks_layout0 KS_SRAM 0 [] 0x80000008 (ks_dev 0 sts_idle) =
     (Inr (), [], (ks_dev 0 sts_idle)\<lparr>CTL := 1, ctl_log := [1], sts_log := [3], sts_cnt := 3\<rparr>) \<and>
   length (ctl_log (snd (snd (KS_Read ks_layout0 KS_SRAM 0 [] 0x80000008 (ks_dev 0 sts_idle))))) = 1"
  by (simp add: KS_Read_def KS_Read_loop.simps wait_busy_def wait_while.simps is_busy_def rd_STS_def
      ks_dev_def sts_idle_def ks_layout0_def tick_def wr_CTL_def wr_STS_def wr_METADATA_def Let_def
      word_sless_alt)

end
